theory Spec2Isabelle
  imports Main
begin

section \<open>The NachOS file header (filesys/filehdr.cc)\<close>

text \<open>
  A shallow embedding of \<^verbatim>\<open>FileHeader\<close>: the i-node of the NachOS file system
  with direct pointers, one single-indirect block and one double-indirect block.
  The C++ methods mutate the header, the free-sector bitmap and the disk; here each of
  them takes these three and returns them updated. An \<^verbatim>\<open>ASSERT\<close> that fails, an array
  index outside its array and a disk request outside the disk end the program, and are
  the \<open>Inl\<close> results. A loop that need not end is a partial function whose value
  \<open>None\<close> stands for not returning.

  All quantities are C \<^verbatim>\<open>int\<close>s. They are modelled as unbounded integers: under the
  hypotheses of the theorems below every intermediate value is at most
  \<open>SectorSize * (NumDirect + NumIndirect * (1 + NumIndirect))\<close> in size or is the
  requested file size itself, so no 32-bit operation wraps for the constants of NachOS.
\<close>

subsection \<open>Constants, faults, arrays\<close>

text \<open>
  \<^verbatim>\<open>SectorSize\<close>, \<^verbatim>\<open>NumDirect\<close> and \<^verbatim>\<open>NumIndirect\<close> are macros of \<^verbatim>\<open>disk.h\<close> and
  \<^verbatim>\<open>filehdr.h\<close>; they are parameters of the model.
\<close>

record params =
  SectorSize :: nat
  NumDirect :: nat
  NumIndirect :: nat

datatype fault = AssertFailed | OutOfBounds | DiskFault

text \<open>A C array of fixed size is a list of that length; an index outside it is a fault.\<close>

definition arr_get :: "int list \<Rightarrow> int \<Rightarrow> fault + int" where
  "arr_get xs i = (if 0 \<le> i \<and> i < int (length xs) then Inr (xs ! nat i) else Inl OutOfBounds)"

definition arr_set :: "int list \<Rightarrow> int \<Rightarrow> int \<Rightarrow> fault + int list" where
  "arr_set xs i v =
     (if 0 \<le> i \<and> i < int (length xs) then Inr (xs[nat i := v]) else Inl OutOfBounds)"

subsection \<open>The collaborators: free-sector bitmap and disk\<close>

type_synonym bitmap = "bool list"

text \<open>
  The free-space map (\<^verbatim>\<open>PersistentBitmap\<close>) and the block device (\<^verbatim>\<open>SynchDisk\<close>) are
  used by this file and defined elsewhere. The map is the list of its bits, bit \<open>n\<close>
  being \<open>True\<close> when sector \<open>n\<close> is marked allocated; the disk is the list of its
  sectors, a sector being \<open>SectorSize div 4\<close> four-byte integers.
\<close>

text \<open>
  Modelled from the spec: \<open>test(sectorNumber) -> bool\<close> of the free-space map
  (section 6), missing with \<^verbatim>\<open>PersistentBitmap\<close>. A number outside the map fails the
  assertion that guards the bit array.
\<close>

definition Test :: "bitmap \<Rightarrow> int \<Rightarrow> fault + bool" where
  "Test m which =
     (if 0 \<le> which \<and> which < int (length m) then Inr (m ! nat which) else Inl AssertFailed)"

text \<open>
  Modelled from the spec: \<open>clear(sectorNumber)\<close> of the free-space map (section 6),
  missing with \<^verbatim>\<open>PersistentBitmap\<close>.
\<close>

definition Clear :: "bitmap \<Rightarrow> int \<Rightarrow> fault + bitmap" where
  "Clear m which =
     (if 0 \<le> which \<and> which < int (length m) then Inr (m[nat which := False])
      else Inl AssertFailed)"

text \<open>
  Modelled from the spec: \<open>findAndMark() -> sectorNumber\<close> of the free-space map
  (section 6), missing with \<^verbatim>\<open>PersistentBitmap\<close>: it finds a free sector and marks
  it, and fails if none is free. The lowest free sector is taken. The callers in this
  file store the result unchecked as a sector number, so the failure is a number: the
  sentinel \<open>-1\<close> of section 6, with the map left as it is.
\<close>

fun first_clear :: "bitmap \<Rightarrow> nat option" where
  "first_clear [] = None"
| "first_clear (b # bs) = (if b then map_option Suc (first_clear bs) else Some 0)"

definition FindAndSet :: "bitmap \<Rightarrow> int \<times> bitmap" where
  "FindAndSet m = (case first_clear m of None \<Rightarrow> (- 1, m) | Some i \<Rightarrow> (int i, m[i := True]))"

text \<open>
  Modelled from the spec: \<open>freeCount() -> int\<close> of the free-space map (section 6),
  missing with \<^verbatim>\<open>PersistentBitmap\<close>.
\<close>

definition NumClear :: "bitmap \<Rightarrow> int" where
  "NumClear m = int (length (filter Not m))"

type_synonym sector = "int list"
type_synonym disk = "sector list"

text \<open>
  Modelled from the spec: \<open>readSector(index) -> bytes[SectorSize]\<close> of the block device
  (section 6), missing with \<^verbatim>\<open>SynchDisk\<close>. A request for a sector that the disk does
  not have is an I/O failure, fatal by section 7.
\<close>

definition ReadSector :: "disk \<Rightarrow> int \<Rightarrow> fault + sector" where
  "ReadSector d n = (if 0 \<le> n \<and> n < int (length d) then Inr (d ! nat n) else Inl DiskFault)"

text \<open>
  Modelled from the spec: \<open>writeSector(index, bytes[SectorSize])\<close> of the block device
  (section 6), missing with \<^verbatim>\<open>SynchDisk\<close>. It copies the first \<open>SectorSize\<close> bytes of
  the object it is given, that is its first \<open>SectorSize div 4\<close> integers.
\<close>

definition WriteSector :: "params \<Rightarrow> disk \<Rightarrow> int \<Rightarrow> sector \<Rightarrow> fault + disk" where
  "WriteSector P d n ws =
     (if 0 \<le> n \<and> n < int (length d) then Inr (d[nat n := take (SectorSize P div 4) ws])
      else Inl DiskFault)"

subsection \<open>The header and the indirect block\<close>

record FileHeader =
  numBytes :: int
  numSectors :: int
  dataSectors :: "int list"
  singleIndirectSector :: int
  doubleIndirectSector :: int
  headerSector :: int

text \<open>Lines 39-49: the constructor; \<^verbatim>\<open>memset\<close> with \<open>-1\<close> makes every pointer \<open>-1\<close>.\<close>

definition FileHeader_new :: "params \<Rightarrow> FileHeader" where
  "FileHeader_new P =
     \<lparr>numBytes = 0, numSectors = 0, dataSectors = replicate (NumDirect P) (- 1),
      singleIndirectSector = - 1, doubleIndirectSector = - 1, headerSector = - 1\<rparr>"

text \<open>
  Modelled from the spec: the class \<^verbatim>\<open>Indirect\<close>, declared in \<^verbatim>\<open>filehdr.h\<close>, which is
  missing: the Indirect Block of section 3, with its \<open>entryCount\<close> and its \<open>NumIndirect\<close>
  pointers.
\<close>

record Indirect =
  ind_numSectors :: int
  ind_dataSectors :: "int list"

text \<open>
  Modelled from the spec: the constructor of \<^verbatim>\<open>Indirect\<close>, missing with \<^verbatim>\<open>filehdr.h\<close>. A
  fresh block holds no entry, and every pointer is the sentinel \<open>-1\<close> of section 6 for
  an unused one, which is what line 345 tests a slot of a fresh top-level block for.
\<close>

definition Indirect_new :: "params \<Rightarrow> Indirect" where
  "Indirect_new P = \<lparr>ind_numSectors = 0, ind_dataSectors = replicate (NumIndirect P) (- 1)\<rparr>"

text \<open>
  Modelled from the spec: the layout of the Indirect Block record of section 6, fixed
  by the missing \<^verbatim>\<open>filehdr.h\<close>. The cast \<^verbatim>\<open>(char *)indirect\<close> hands the object to the disk
  as this sequence of integers.
\<close>

definition words_of_Indirect :: "Indirect \<Rightarrow> sector" where
  "words_of_Indirect b = ind_numSectors b # ind_dataSectors b"

text \<open>
  Modelled from the spec: the layout of the File Header record of section 6, fixed by
  the missing \<^verbatim>\<open>filehdr.h\<close>. The cast \<^verbatim>\<open>(char *)this\<close> hands the header to the disk as
  this sequence of integers.
\<close>

definition words_of_FileHeader :: "FileHeader \<Rightarrow> sector" where
  "words_of_FileHeader h =
     [numBytes h, numSectors h] @ dataSectors h @
     [singleIndirectSector h, doubleIndirectSector h, headerSector h]"

text \<open>
  Reading a sector into an object overwrites the integers of the object, in their
  order, with those of the sector; what the sector image does not reach keeps its
  value. The result has the length of the object.
\<close>

definition read_into :: "sector \<Rightarrow> sector \<Rightarrow> sector" where
  "read_into obj ws = take (length obj) ws @ drop (length ws) obj"

text \<open>
  Every read of an indirect block in this file (lines 297, 329, 346, 390, 400, 405) is
  into a block just constructed. The first case cannot arise: the object has
  \<open>NumIndirect + 1\<close> integers.
\<close>

definition Indirect_of_words :: "params \<Rightarrow> sector \<Rightarrow> Indirect" where
  "Indirect_of_words P ws =
     (case read_into (words_of_Indirect (Indirect_new P)) ws of
        [] \<Rightarrow> Indirect_new P
      | n # r \<Rightarrow> \<lparr>ind_numSectors = n, ind_dataSectors = r\<rparr>)"

text \<open>
  A header is read into the header object itself (line 152), which has five integers
  more than it has direct pointers, so that every index below is inside \<open>obj\<close>.
\<close>

definition FileHeader_of_words :: "FileHeader \<Rightarrow> sector \<Rightarrow> FileHeader" where
  "FileHeader_of_words h ws =
     (let n = length (dataSectors h); obj = read_into (words_of_FileHeader h) ws
      in \<lparr>numBytes = obj ! 0, numSectors = obj ! 1,
          dataSectors = take n (drop 2 obj),
          singleIndirectSector = obj ! (n + 2),
          doubleIndirectSector = obj ! (n + 3),
          headerSector = obj ! (n + 4)\<rparr>)"

subsection \<open>Address translation (lines 194-200 and 377-415)\<close>

definition GetPhysicSector :: "params \<Rightarrow> FileHeader \<Rightarrow> disk \<Rightarrow> int \<Rightarrow> fault + int" where
  "GetPhysicSector P h d localSector =
     (if localSector < int (NumDirect P) then arr_get (dataSectors h) localSector
      else if localSector < int (NumDirect P) + int (NumIndirect P) then
        (if singleIndirectSector h = - 1 then Inl AssertFailed
         else case ReadSector d (singleIndirectSector h) of
            Inl e \<Rightarrow> Inl e
          | Inr ws \<Rightarrow>
              arr_get (ind_dataSectors (Indirect_of_words P ws))
                (localSector - int (NumDirect P)))
      else
        (if doubleIndirectSector h = - 1 then Inl AssertFailed
         else case ReadSector d (doubleIndirectSector h) of
            Inl e \<Rightarrow> Inl e
          | Inr ws \<Rightarrow>
              (let doubleIndirect = Indirect_of_words P ws;
                   single = (localSector - (int (NumDirect P) + int (NumIndirect P)))
                              div int (NumIndirect P)
               in case arr_get (ind_dataSectors doubleIndirect) single of
                    Inl e \<Rightarrow> Inl e
                  | Inr s \<Rightarrow>
                      (case ReadSector d s of
                         Inl e \<Rightarrow> Inl e
                       | Inr ws2 \<Rightarrow>
                           (let ind = Indirect_of_words P ws2;
                                pos = (localSector - (int (NumDirect P) + int (NumIndirect P)))
                                        mod int (NumIndirect P)
                            in arr_get (ind_dataSectors ind) pos)))))"

text \<open>
  The assertions of lines 386 and 397 repeat the tests of their branches and cannot fail.
  The two divisions of lines 402 and 407 have a dividend that is not negative in their
  branch, where C's truncating division and \<open>div\<close>, \<open>mod\<close> agree; were \<open>NumIndirect\<close>
  0, C would trap there, and the model faults at the empty array that follows. Line 197
  divides the offset the caller gives, so C's rounding towards zero is written out.
\<close>

definition c_div :: "int \<Rightarrow> int \<Rightarrow> int" where
  "c_div a b = sgn a * sgn b * (\<bar>a\<bar> div \<bar>b\<bar>)"

definition ByteToSector :: "params \<Rightarrow> FileHeader \<Rightarrow> disk \<Rightarrow> int \<Rightarrow> fault + int" where
  "ByteToSector P h d offset =
     (let localSector = c_div offset (int (SectorSize P)) in GetPhysicSector P h d localSector)"

subsection \<open>Header persistence (lines 149-182)\<close>

definition FetchFrom :: "FileHeader \<Rightarrow> disk \<Rightarrow> int \<Rightarrow> fault + FileHeader" where
  "FetchFrom h d sector =
     (case ReadSector d sector of Inl e \<Rightarrow> Inl e | Inr ws \<Rightarrow> Inr (FileHeader_of_words h ws))"

definition WriteBack :: "params \<Rightarrow> FileHeader \<Rightarrow> disk \<Rightarrow> int \<Rightarrow> fault + disk" where
  "WriteBack P h d sector = WriteSector P d sector (words_of_FileHeader h)"

subsection \<open>Allocation (lines 85-111 and 253-374)\<close>

text \<open>
  Lines 254-272. The loop ends for every header: while \<open>numSectors\<close> is below
  \<open>NumDirect\<close> it grows, and afterwards one more round moves \<open>numBytes\<close> out of the
  range of the loop condition.
\<close>

function AllocateDirectBlocks ::
  "params \<Rightarrow> int \<Rightarrow> FileHeader \<Rightarrow> bitmap \<Rightarrow> fault + (FileHeader \<times> bitmap)" where
  "AllocateDirectBlocks P fileSize h freeMap =
     (if numBytes h \<ge> 0 \<and> numBytes h < int (NumDirect P) * int (SectorSize P) then
        if fileSize \<le> numSectors h * int (SectorSize P) then
          Inr (h\<lparr>numBytes := fileSize\<rparr>, freeMap)
        else
          (let h1 = h\<lparr>numBytes := numSectors h * int (SectorSize P)\<rparr> in
           if numSectors h1 < int (NumDirect P) then
             (let (sec, freeMap1) = FindAndSet freeMap in
              case arr_set (dataSectors h1) (numSectors h1) sec of
                Inl e \<Rightarrow> Inl e
              | Inr ds \<Rightarrow>
                  AllocateDirectBlocks P fileSize
                    (h1\<lparr>dataSectors := ds, numSectors := numSectors h1 + 1\<rparr>) freeMap1)
           else AllocateDirectBlocks P fileSize h1 freeMap)
      else Inr (h, freeMap))"
  by pat_completeness auto
termination
proof (relation "measures [\<lambda>(P, fileSize, h, freeMap). nat (int (NumDirect P) - numSectors h),
    \<lambda>(P, fileSize, h, freeMap).
      if numBytes h \<ge> 0 \<and> numBytes h < int (NumDirect P) * int (SectorSize P) then 1 else 0]",
    goal_cases)
  case 1
  show ?case by simp
next
  case (2 P fileSize h freeMap h1 x sec freeMap1 ds)
  then show ?case by simp
next
  case (3 P fileSize h freeMap h1)
  then have "int (NumDirect P) * int (SectorSize P) \<le> numSectors h * int (SectorSize P)"
    by (simp add: mult_right_mono)
  with 3 show ?case by simp
qed

declare AllocateDirectBlocks.simps [simp del]

text \<open>Lines 275-288.\<close>

definition CreateSingleIndirectBlock ::
  "params \<Rightarrow> FileHeader \<Rightarrow> bitmap \<Rightarrow> disk \<Rightarrow> fault + (FileHeader \<times> bitmap \<times> disk)" where
  "CreateSingleIndirectBlock P h freeMap d =
     (if singleIndirectSector h = - 1 then
        (let singleIndirect = Indirect_new P;
             (sec, freeMap1) = FindAndSet freeMap;
             h1 = h\<lparr>singleIndirectSector := sec\<rparr>
         in case WriteSector P d (singleIndirectSector h1) (words_of_Indirect singleIndirect) of
              Inl e \<Rightarrow> Inl e
            | Inr d1 \<Rightarrow> Inr (h1, freeMap1, d1))
      else Inr (h, freeMap, d))"

text \<open>
  Lines 299-313, the loop of \<^verbatim>\<open>AllocateIndirectSpace\<close>. It can run forever (a full
  block while \<open>numBytes\<close> stays inside the range), so it is a partial function.
\<close>

partial_function (option) AllocateIndirectSpace_loop ::
  "params \<Rightarrow> int \<Rightarrow> int \<Rightarrow> int \<Rightarrow> FileHeader \<Rightarrow> Indirect \<Rightarrow> bitmap
     \<Rightarrow> (fault + (FileHeader \<times> Indirect \<times> bitmap)) option" where
  "AllocateIndirectSpace_loop P fileSize start end h indirect freeMap =
     (if numBytes h \<ge> start \<and> numBytes h < end then
        if fileSize \<le> numSectors h * int (SectorSize P) then
          Some (Inr (h\<lparr>numBytes := fileSize\<rparr>, indirect, freeMap))
        else
          (let h1 = h\<lparr>numBytes := numSectors h * int (SectorSize P)\<rparr> in
           if ind_numSectors indirect < int (NumIndirect P) then
             (let (sec, freeMap1) = FindAndSet freeMap in
              case arr_set (ind_dataSectors indirect) (ind_numSectors indirect) sec of
                Inl e \<Rightarrow> Some (Inl e)
              | Inr ds \<Rightarrow>
                  AllocateIndirectSpace_loop P fileSize start end
                    (h1\<lparr>numSectors := numSectors h1 + 1\<rparr>)
                    (indirect\<lparr>ind_dataSectors := ds,
                               ind_numSectors := ind_numSectors indirect + 1\<rparr>)
                    freeMap1)
           else AllocateIndirectSpace_loop P fileSize start end h1 indirect freeMap)
      else Some (Inr (h, indirect, freeMap)))"

declare AllocateIndirectSpace_loop.simps [code]

text \<open>Lines 291-318. The result is the unmet remainder with the updated state.\<close>

definition AllocateIndirectSpace ::
  "params \<Rightarrow> int \<Rightarrow> int \<Rightarrow> int \<Rightarrow> FileHeader \<Rightarrow> bitmap \<Rightarrow> disk
     \<Rightarrow> (fault + (int \<times> FileHeader \<times> bitmap \<times> disk)) option" where
  "AllocateIndirectSpace P fileSize sector start h freeMap d =
     (let end = start + int (NumIndirect P) * int (SectorSize P) in
      case ReadSector d sector of
        Inl e \<Rightarrow> Some (Inl e)
      | Inr ws \<Rightarrow>
          (case AllocateIndirectSpace_loop P fileSize start end h (Indirect_of_words P ws) freeMap of
             None \<Rightarrow> None
           | Some (Inl e) \<Rightarrow> Some (Inl e)
           | Some (Inr (h1, indirect, freeMap1)) \<Rightarrow>
               (case WriteSector P d sector (words_of_Indirect indirect) of
                  Inl e \<Rightarrow> Some (Inl e)
                | Inr d1 \<Rightarrow> Some (Inr (fileSize - numBytes h1, h1, freeMap1, d1)))))"

text \<open>
  Lines 345-358: the secondary block of slot \<open>cur_numSectors\<close> is read when the slot
  holds a pointer, and is created, recorded at slot \<open>numSectors\<close> of the top-level block
  and written with the top-level block otherwise.
\<close>

definition double_secondary ::
  "params \<Rightarrow> int \<Rightarrow> Indirect \<Rightarrow> FileHeader \<Rightarrow> bitmap \<Rightarrow> disk
     \<Rightarrow> fault + (Indirect \<times> bitmap \<times> disk)" where
  "double_secondary P cur_numSectors doubleIndirect h freeMap d =
     (case arr_get (ind_dataSectors doubleIndirect) cur_numSectors of
        Inl e \<Rightarrow> Inl e
      | Inr p \<Rightarrow>
          if p \<noteq> - 1 then
            (case ReadSector d p of Inl e \<Rightarrow> Inl e | Inr ws \<Rightarrow> Inr (doubleIndirect, freeMap, d))
          else
            (let (indSector, freeMap1) = FindAndSet freeMap in
             case arr_set (ind_dataSectors doubleIndirect) (ind_numSectors doubleIndirect)
                    indSector of
               Inl e \<Rightarrow> Inl e
             | Inr ds \<Rightarrow>
                 (let doubleIndirect1 =
                        doubleIndirect\<lparr>ind_dataSectors := ds,
                          ind_numSectors := ind_numSectors doubleIndirect + 1\<rparr>
                  in case WriteSector P d indSector (words_of_Indirect (Indirect_new P)) of
                       Inl e \<Rightarrow> Inl e
                     | Inr d1 \<Rightarrow>
                         (case WriteSector P d1 (doubleIndirectSector h)
                                 (words_of_Indirect doubleIndirect1) of
                            Inl e \<Rightarrow> Inl e
                          | Inr d2 \<Rightarrow> Inr (doubleIndirect1, freeMap1, d2)))))"

text \<open>Lines 341-371, the do-while loop.\<close>

partial_function (option) AllocateDoubleIndirectBlock_loop ::
  "params \<Rightarrow> int \<Rightarrow> int \<Rightarrow> Indirect \<Rightarrow> FileHeader \<Rightarrow> bitmap \<Rightarrow> disk
     \<Rightarrow> (fault + (FileHeader \<times> bitmap \<times> disk)) option" where
  "AllocateDoubleIndirectBlock_loop P fileSize cur_numSectors doubleIndirect h freeMap d =
     (if \<not> cur_numSectors \<le> ind_numSectors doubleIndirect then Some (Inl AssertFailed)
      else
        case double_secondary P cur_numSectors doubleIndirect h freeMap d of
          Inl e \<Rightarrow> Some (Inl e)
        | Inr (doubleIndirect1, freeMap1, d1) \<Rightarrow>
            (let start = int (SectorSize P) *
                   (int (NumDirect P) + int (NumIndirect P) * (1 + cur_numSectors))
             in case arr_get (ind_dataSectors doubleIndirect1) cur_numSectors of
                  Inl e \<Rightarrow> Some (Inl e)
                | Inr sector \<Rightarrow>
                    (case AllocateIndirectSpace P fileSize sector start h freeMap1 d1 of
                       None \<Rightarrow> None
                     | Some (Inl e) \<Rightarrow> Some (Inl e)
                     | Some (Inr (allocated, h2, freeMap2, d2)) \<Rightarrow>
                         if allocated \<noteq> 0 then
                           AllocateDoubleIndirectBlock_loop P fileSize (cur_numSectors + 1)
                             doubleIndirect1 h2 freeMap2 d2
                         else Some (Inr (h2, freeMap2, d2)))))"

declare AllocateDoubleIndirectBlock_loop.simps [code]

text \<open>Lines 321-374.\<close>

definition AllocateDoubleIndirectBlock ::
  "params \<Rightarrow> int \<Rightarrow> FileHeader \<Rightarrow> bitmap \<Rightarrow> disk
     \<Rightarrow> (fault + (FileHeader \<times> bitmap \<times> disk)) option" where
  "AllocateDoubleIndirectBlock P fileSize h freeMap d =
     (if doubleIndirectSector h \<noteq> - 1 then
        (case ReadSector d (doubleIndirectSector h) of
           Inl e \<Rightarrow> Some (Inl e)
         | Inr ws \<Rightarrow>
             AllocateDoubleIndirectBlock_loop P fileSize 0 (Indirect_of_words P ws) h freeMap d)
      else
        (let (sec, freeMap1) = FindAndSet freeMap;
             h1 = h\<lparr>doubleIndirectSector := sec\<rparr>
         in case WriteSector P d (doubleIndirectSector h1) (words_of_Indirect (Indirect_new P)) of
              Inl e \<Rightarrow> Some (Inl e)
            | Inr d1 \<Rightarrow>
                AllocateDoubleIndirectBlock_loop P fileSize 0 (Indirect_new P) h1 freeMap1 d1))"

text \<open>Lines 85-111. The first component of the result is the returned \<^verbatim>\<open>bool\<close>.\<close>

definition Allocate ::
  "params \<Rightarrow> FileHeader \<Rightarrow> bitmap \<Rightarrow> disk \<Rightarrow> int
     \<Rightarrow> (fault + (bool \<times> FileHeader \<times> bitmap \<times> disk)) option" where
  "Allocate P h freeMap d fileSize =
     (if NumClear freeMap < numSectors h then Some (Inr (False, h, freeMap, d))
      else
        case AllocateDirectBlocks P fileSize h freeMap of
          Inl e \<Rightarrow> Some (Inl e)
        | Inr (h1, freeMap1) \<Rightarrow>
            if fileSize \<le> int (NumDirect P) * int (SectorSize P) then
              Some (Inr (True, h1, freeMap1, d))
            else if \<not> numBytes h1 \<ge> int (NumDirect P) * int (SectorSize P) then
              Some (Inl AssertFailed)
            else
              (case CreateSingleIndirectBlock P h1 freeMap1 d of
                 Inl e \<Rightarrow> Some (Inl e)
               | Inr (h2, freeMap2, d2) \<Rightarrow>
                   (case AllocateIndirectSpace P fileSize (singleIndirectSector h2)
                           (int (NumDirect P) * int (SectorSize P)) h2 freeMap2 d2 of
                      None \<Rightarrow> None
                    | Some (Inl e) \<Rightarrow> Some (Inl e)
                    | Some (Inr (allocated, h3, freeMap3, d3)) \<Rightarrow>
                        if allocated = 0 then Some (Inr (True, h3, freeMap3, d3))
                        else if \<not> allocated > 0 then Some (Inl AssertFailed)
                        else
                          (case AllocateDoubleIndirectBlock P fileSize h3 freeMap3 d3 of
                             None \<Rightarrow> None
                           | Some (Inl e) \<Rightarrow> Some (Inl e)
                           | Some (Inr (h4, freeMap4, d4)) \<Rightarrow>
                               Some (Inr (True, h4, freeMap4, d4))))))"

subsection \<open>Deallocation (lines 120-140)\<close>

function Deallocate_loop ::
  "params \<Rightarrow> FileHeader \<Rightarrow> disk \<Rightarrow> int \<Rightarrow> bitmap \<Rightarrow> fault + bitmap" where
  "Deallocate_loop P h d i freeMap =
     (if i < numSectors h then
        (case GetPhysicSector P h d i of
           Inl e \<Rightarrow> Inl e
         | Inr pos \<Rightarrow>
             (case Test freeMap pos of
                Inl e \<Rightarrow> Inl e
              | Inr marked \<Rightarrow>
                  if \<not> marked then Inl AssertFailed
                  else
                    (case Clear freeMap pos of
                       Inl e \<Rightarrow> Inl e
                     | Inr freeMap1 \<Rightarrow> Deallocate_loop P h d (i + 1) freeMap1)))
      else Inr freeMap)"
  by pat_completeness auto
termination
  by (relation "measure (\<lambda>(P, h, d, i, freeMap). nat (numSectors h - i))") auto

declare Deallocate_loop.simps [simp del]

text \<open>Lines 133-139: an index block is released only when it is marked.\<close>

definition release_if_marked :: "bitmap \<Rightarrow> int \<Rightarrow> fault + bitmap" where
  "release_if_marked freeMap sector =
     (if sector \<noteq> - 1 then
        (case Test freeMap sector of
           Inl e \<Rightarrow> Inl e
         | Inr marked \<Rightarrow> if marked then Clear freeMap sector else Inr freeMap)
      else Inr freeMap)"

text \<open>
  The method returns nothing; the result is the state it leaves: the header, the
  free-sector map and the disk.
\<close>

definition Deallocate ::
  "params \<Rightarrow> FileHeader \<Rightarrow> bitmap \<Rightarrow> disk \<Rightarrow> fault + (FileHeader \<times> bitmap \<times> disk)" where
  "Deallocate P h freeMap d =
     (case Deallocate_loop P h d 0 freeMap of
        Inl e \<Rightarrow> Inl e
      | Inr freeMap1 \<Rightarrow>
          (case release_if_marked freeMap1 (singleIndirectSector h) of
             Inl e \<Rightarrow> Inl e
           | Inr freeMap2 \<Rightarrow>
               (case release_if_marked freeMap2 (doubleIndirectSector h) of
                  Inl e \<Rightarrow> Inl e
                | Inr freeMap3 \<Rightarrow> Inr (h, freeMap3, d))))"

subsection \<open>Notions used to state the properties\<close>

text \<open>The sectors that a free-sector map marks as allocated.\<close>

definition marked :: "bitmap \<Rightarrow> int set" where
  "marked m = {n. 0 \<le> n \<and> n < int (length m) \<and> m ! nat n}"

text \<open>
  The sectors that deallocation is to release: the sector of every logical block below
  \<open>numSectors\<close>, and the two index sectors of the header where they are not \<open>-1\<close>.
\<close>

definition released :: "params \<Rightarrow> FileHeader \<Rightarrow> disk \<Rightarrow> int set" where
  "released P h d =
     {pos. \<exists>i. 0 \<le> i \<and> i < numSectors h \<and> GetPhysicSector P h d i = Inr pos} \<union>
     {s. s = singleIndirectSector h \<and> s \<noteq> - 1} \<union>
     {s. s = doubleIndirectSector h \<and> s \<noteq> - 1}"

text \<open>
  \<^verbatim>\<open>divRoundUp\<close> of \<^verbatim>\<open>utility.h\<close>, named in line 89: the number of sectors that a
  number of bytes takes, \<open>ceil(n / s)\<close>.
\<close>

definition divRoundUp :: "int \<Rightarrow> int \<Rightarrow> int" where
  "divRoundUp n s = n div s + (if n mod s > 0 then 1 else 0)"

text \<open>The sectors that \<open>k\<close> successive draws from a free-sector map hand out.\<close>

fun draw_n :: "nat \<Rightarrow> bitmap \<Rightarrow> int list \<times> bitmap" where
  "draw_n 0 m = ([], m)"
| "draw_n (Suc k) m =
     (let (s, m1) = FindAndSet m; (ss, m2) = draw_n k m1 in (s # ss, m2))"

text \<open>An array after the entries \<open>n, n + 1, ...\<close> have been overwritten with \<open>xs\<close>.\<close>

definition write_at :: "int list \<Rightarrow> nat \<Rightarrow> int list \<Rightarrow> int list" where
  "write_at ds n xs = take n ds @ xs @ drop (n + length xs) ds"

text \<open>
  The constants are positive and both records fit a sector of \<open>SectorSize div 4\<close>
  integers: the header has five scalar fields, the indirect block one (section 3).
\<close>

definition params_ok :: "params \<Rightarrow> bool" where
  "params_ok P \<longleftrightarrow>
     0 < NumDirect P \<and> 0 < NumIndirect P \<and>
     NumDirect P + 5 \<le> SectorSize P div 4 \<and> NumIndirect P + 1 \<le> SectorSize P div 4"

text \<open>The largest number of blocks of a file (section 3).\<close>

definition capacity :: "params \<Rightarrow> int" where
  "capacity P = int (NumDirect P) + int (NumIndirect P) + int (NumIndirect P) * int (NumIndirect P)"

text \<open>
  Every logical block below \<open>numSectors\<close> translates to a sector that the map marks, and
  no two of them to the same sector.
\<close>

definition translates :: "params \<Rightarrow> FileHeader \<Rightarrow> bitmap \<Rightarrow> disk \<Rightarrow> bool" where
  "translates P h fm d \<longleftrightarrow>
     (\<forall>i. 0 \<le> i \<and> i < numSectors h \<longrightarrow>
        (\<exists>s. GetPhysicSector P h d i = Inr s \<and> s \<in> marked fm)) \<and>
     (\<forall>i j. 0 \<le> i \<and> i < j \<and> j < numSectors h \<longrightarrow>
        GetPhysicSector P h d i \<noteq> GetPhysicSector P h d j)"

text \<open>
  The sectors a file of \<open>fileSize\<close> bytes takes: its data sectors, the single-indirect
  block when there are more than \<open>NumDirect\<close> of them, and the top-level block with one
  secondary block for every \<open>NumIndirect\<close> data sectors beyond
  \<open>NumDirect + NumIndirect\<close> (section 4.1).
\<close>

definition sectors_needed :: "params \<Rightarrow> int \<Rightarrow> int" where
  "sectors_needed P fileSize =
     (let n = divRoundUp fileSize (int (SectorSize P)) in
      if n \<le> 0 then 0
      else n + (if int (NumDirect P) < n then 1 else 0) +
           (if int (NumDirect P) + int (NumIndirect P) < n
            then 1 + divRoundUp (n - (int (NumDirect P) + int (NumIndirect P)))
                       (int (NumIndirect P))
            else 0))"

text \<open>
  The state at the head of the do-while loop of lines 341-371, in its round
  \<open>cur_numSectors\<close>, when \<open>Allocate\<close> started from a zeroed header: the top-level block in
  memory is the one on disk, its first \<open>cur_numSectors\<close> slots hold the secondary blocks
  made so far and the others \<open>-1\<close>; the file ends with the last full secondary block;
  the index sectors are marked sectors of the disk, the top-level one different from the
  others.
\<close>

definition double_inv ::
  "params \<Rightarrow> int \<Rightarrow> Indirect \<Rightarrow> FileHeader \<Rightarrow> bitmap \<Rightarrow> disk \<Rightarrow> bool" where
  "double_inv P cur dbl h fm d \<longleftrightarrow>
     0 \<le> cur \<and> ind_numSectors dbl = cur \<and> length (ind_dataSectors dbl) = NumIndirect P \<and>
     (\<forall>j. nat cur \<le> j \<and> j < NumIndirect P \<longrightarrow> ind_dataSectors dbl ! j = - 1) \<and>
     numSectors h = int (NumDirect P) + int (NumIndirect P) * (1 + cur) \<and>
     numBytes h = numSectors h * int (SectorSize P) \<and>
     length (dataSectors h) = NumDirect P \<and>
     0 \<le> doubleIndirectSector h \<and> doubleIndirectSector h < int (length d) \<and>
     doubleIndirectSector h \<in> marked fm \<and>
     Indirect_of_words P (d ! nat (doubleIndirectSector h)) = dbl \<and>
     0 \<le> singleIndirectSector h \<and> singleIndirectSector h < int (length d) \<and>
     singleIndirectSector h \<in> marked fm \<and>
     singleIndirectSector h \<noteq> doubleIndirectSector h \<and>
     (\<forall>j < nat cur. 0 \<le> ind_dataSectors dbl ! j \<and> ind_dataSectors dbl ! j < int (length d) \<and>
        ind_dataSectors dbl ! j \<in> marked fm \<and> ind_dataSectors dbl ! j \<noteq> doubleIndirectSector h) \<and>
     translates P h fm d \<and> length fm \<le> length d"

subsection \<open>A small instance\<close>

text \<open>
  Sectors of 32 bytes hold eight integers, so that a header with three direct pointers
  and an indirect block with seven pointers each fill one sector exactly, as the
  constants of NachOS do for sectors of 128 bytes. A file has at most
  \<open>3 + 7 + 7 * 7 = 59\<close> blocks, that is 1888 bytes.
\<close>

definition params_ex :: params where
  "params_ex = \<lparr>SectorSize = 32, NumDirect = 3, NumIndirect = 7\<rparr>"

definition blank_disk :: "nat \<Rightarrow> disk" where
  "blank_disk n = replicate n (replicate 8 0)"

text \<open>The state after allocating 352 bytes (eleven blocks) on an empty disk of 16 sectors.\<close>

definition hdr_ex :: FileHeader where
  "hdr_ex =
     \<lparr>numBytes = 352, numSectors = 11, dataSectors = [0, 1, 2],
      singleIndirectSector = 3, doubleIndirectSector = 11, headerSector = - 1\<rparr>"

definition map_ex :: bitmap where
  "map_ex = replicate 14 True @ [False, False]"

definition disk_ex :: disk where
  "disk_ex =
     (blank_disk 16)
       [3 := [7, 4, 5, 6, 7, 8, 9, 10],
        11 := [1, 12, - 1, - 1, - 1, - 1, - 1, - 1],
        12 := [1, 13, - 1, - 1, - 1, - 1, - 1, - 1]]"

text \<open>The state after allocating 128 bytes (four blocks) on an empty disk of 6 sectors.\<close>

definition hdr_ex4 :: FileHeader where
  "hdr_ex4 =
     \<lparr>numBytes = 128, numSectors = 4, dataSectors = [0, 1, 2],
      singleIndirectSector = 3, doubleIndirectSector = - 1, headerSector = - 1\<rparr>"

definition disk_ex4 :: disk where
  "disk_ex4 = (blank_disk 6)[3 := [1, 4, - 1, - 1, - 1, - 1, - 1, - 1]]"

section \<open>Properties\<close>

subsection \<open>Basic facts about the collaborators and the records\<close>

lemma length_read_into [simp]: "length (read_into obj ws) = length obj"
  by (simp add: read_into_def)

lemma length_words_of_Indirect [simp]:
  "length (words_of_Indirect b) = Suc (length (ind_dataSectors b))"
  by (simp add: words_of_Indirect_def)

lemma length_Indirect_of_words [simp]:
  "length (ind_dataSectors (Indirect_of_words P ws)) = NumIndirect P"
proof -
  have "length (read_into (words_of_Indirect (Indirect_new P)) ws) = Suc (NumIndirect P)"
    by (simp add: Indirect_new_def)
  then show ?thesis
    by (cases "read_into (words_of_Indirect (Indirect_new P)) ws")
       (simp_all add: Indirect_of_words_def)
qed

lemma read_into_same:
  "length obj \<le> length ws \<Longrightarrow> read_into obj ws = take (length obj) ws"
  by (simp add: read_into_def)

lemma Indirect_of_words_of:
  assumes "length (ind_dataSectors b) = NumIndirect P" "NumIndirect P < k"
  shows "Indirect_of_words P (take k (words_of_Indirect b)) = b"
  using assms
  by (simp add: Indirect_of_words_def read_into_def words_of_Indirect_def Indirect_new_def)

lemma Test_Inr: "Test m n = Inr b \<longleftrightarrow> 0 \<le> n \<and> n < int (length m) \<and> b = m ! nat n"
  by (auto simp: Test_def)

lemma Clear_Inr: "Clear m n = Inr m' \<longleftrightarrow> 0 \<le> n \<and> n < int (length m) \<and> m' = m[nat n := False]"
  by (auto simp: Clear_def)

lemma FileHeader_of_words_of:
  assumes "length (dataSectors h) = length (dataSectors h0)"
    and "length (dataSectors h) + 5 \<le> k"
  shows "FileHeader_of_words h0 (take k (words_of_FileHeader h)) = h"
proof -
  let ?w = "words_of_FileHeader h"
  have l: "length ?w = length (dataSectors h) + 5" "length (words_of_FileHeader h0) = length (dataSectors h) + 5"
    using assms by (simp_all add: words_of_FileHeader_def)
  then have t: "take k ?w = ?w" using assms by simp
  have r: "read_into (words_of_FileHeader h0) ?w = ?w"
    using l by (simp add: read_into_def)
  show ?thesis
    unfolding t FileHeader_of_words_def Let_def r
    using assms(1)
    by (simp add: words_of_FileHeader_def nth_append)
qed

subsection \<open>The example states\<close>

lemma Allocate_ex:
  "Allocate params_ex (FileHeader_new params_ex) (replicate 16 False) (blank_disk 16) 352 =
     Some (Inr (True, hdr_ex, map_ex, disk_ex))"
  by code_simp

lemma Allocate_ex4:
  "Allocate params_ex (FileHeader_new params_ex) (replicate 6 False) (blank_disk 6) 128 =
     Some (Inr (True, hdr_ex4, replicate 5 True @ [False], disk_ex4))"
  by code_simp

lemma Deallocate_ex:
  "Deallocate params_ex hdr_ex map_ex disk_ex =
     Inr (hdr_ex, (replicate 16 False)[12 := True], disk_ex)"
  by code_simp

subsection \<open>Admission control\<close>

lemma Allocate_zeroed_never_refuses:
  assumes "Allocate P (FileHeader_new P) fm d fileSize = Some (Inr (ok, h', fm', d'))"
  shows "ok"
proof -
  have "\<not> NumClear fm < numSectors (FileHeader_new P)"
    by (simp add: NumClear_def FileHeader_new_def)
  with assms show ?thesis
    unfolding Allocate_def
    by (simp split: sum.splits prod.splits if_splits option.splits)
qed

text \<open>
  Claim C1: on a zeroed header, when the free-sector map holds fewer free sectors than
  the request needs, \<open>Allocate\<close> should return false and leave the map and the header
  as they were, drawing no sector before it decides. The code compares the free count
  with \<open>numSectors\<close>, still 0, so it refuses nothing (lemma
  \<open>Allocate_zeroed_never_refuses\<close>). With one free sector and a request for two, the
  call returns true, has drawn the free sector and has stored the \<open>-1\<close> of the failed
  draw in the second direct pointer.
\<close>

theorem Allocate_admits_without_space:
  "NumClear [True, True, False, True] = 1 \<and>
   Allocate params_ex (FileHeader_new params_ex) [True, True, False, True] (blank_disk 4) 64 =
     Some (Inr (True,
       \<lparr>numBytes = 64, numSectors = 2, dataSectors = [2, - 1, - 1],
        singleIndirectSector = - 1, doubleIndirectSector = - 1, headerSector = - 1\<rparr>,
       [True, True, True, True], blank_disk 4))"
  by code_simp

text \<open>
  Claim C2: for a size beyond the capacity of \<open>NumDirect + NumIndirect + NumIndirect\<^sup>2\<close>
  blocks, \<open>Allocate\<close> should fail with the free count unchanged. The code has no such
  check: for 1889 bytes, one more than the 59 blocks of the instance hold, it draws
  sectors from the first round on (the direct phase alone takes three) and, all seven
  secondary blocks being full, reads slot 7 of the seven pointers of the top-level
  block (line 345). Lemma \<open>Allocate_zeroed_overflow\<close> shows the same end for every
  size beyond the capacity when the map has a free sector for every draw.
\<close>

theorem Allocate_beyond_capacity:
  "Allocate params_ex (FileHeader_new params_ex) (replicate 80 False) (blank_disk 80) 1889 =
     Some (Inl OutOfBounds) \<and>
   AllocateDirectBlocks params_ex 1889 (FileHeader_new params_ex) (replicate 80 False) =
     Inr (\<lparr>numBytes = 96, numSectors = 3, dataSectors = [0, 1, 2],
           singleIndirectSector = - 1, doubleIndirectSector = - 1, headerSector = - 1\<rparr>,
          replicate 3 True @ replicate 77 False)"
  by code_simp

subsection \<open>Address translation\<close>

text \<open>
  Claim C4: \<open>GetPhysicSector\<close> returns \<open>dataSectors[i]\<close> for \<open>i < NumDirect\<close>, whatever
  the disk holds; for \<open>NumDirect \<le> j < NumDirect + NumIndirect\<close> it returns entry
  \<open>j - NumDirect\<close> of the block read from \<open>singleIndirectSector\<close>; beyond, it returns
  entry \<open>(k - NumDirect - NumIndirect) mod NumIndirect\<close> of the secondary block whose
  sector is entry \<open>(k - NumDirect - NumIndirect) div NumIndirect\<close> of the block read from
  \<open>doubleIndirectSector\<close>. \<open>ByteToSector\<close> translates the block \<open>offset / SectorSize\<close>.
\<close>

theorem GetPhysicSector_levels:
  "(0 \<le> i \<and> i < int (NumDirect P) \<and> length (dataSectors h) = NumDirect P \<longrightarrow>
      GetPhysicSector P h d i = Inr (dataSectors h ! nat i) \<and>
      GetPhysicSector P h d' i = GetPhysicSector P h d i) \<and>
   (int (NumDirect P) \<le> j \<and> j < int (NumDirect P) + int (NumIndirect P) \<and>
    singleIndirectSector h \<noteq> - 1 \<and> ReadSector d (singleIndirectSector h) = Inr ws1 \<longrightarrow>
      GetPhysicSector P h d j =
        Inr (ind_dataSectors (Indirect_of_words P ws1) ! nat (j - int (NumDirect P)))) \<and>
   (int (NumDirect P) + int (NumIndirect P) \<le> k \<and>
    doubleIndirectSector h \<noteq> - 1 \<and> ReadSector d (doubleIndirectSector h) = Inr ws \<and>
    arr_get (ind_dataSectors (Indirect_of_words P ws))
      ((k - int (NumDirect P) - int (NumIndirect P)) div int (NumIndirect P)) = Inr s \<and>
    ReadSector d s = Inr ws2 \<longrightarrow>
      GetPhysicSector P h d k =
        Inr (ind_dataSectors (Indirect_of_words P ws2) !
               nat ((k - int (NumDirect P) - int (NumIndirect P)) mod int (NumIndirect P)))) \<and>
   (0 \<le> offset \<longrightarrow>
      ByteToSector P h d offset = GetPhysicSector P h d (offset div int (SectorSize P)))"
proof -
  have 1: "GetPhysicSector P h d i = Inr (dataSectors h ! nat i) \<and>
      GetPhysicSector P h d' i = GetPhysicSector P h d i"
    if "0 \<le> i \<and> i < int (NumDirect P) \<and> length (dataSectors h) = NumDirect P"
    using that by (simp add: GetPhysicSector_def arr_get_def)
  have 2: "GetPhysicSector P h d j =
        Inr (ind_dataSectors (Indirect_of_words P ws1) ! nat (j - int (NumDirect P)))"
    if "int (NumDirect P) \<le> j \<and> j < int (NumDirect P) + int (NumIndirect P) \<and>
    singleIndirectSector h \<noteq> - 1 \<and> ReadSector d (singleIndirectSector h) = Inr ws1"
    using that by (simp add: GetPhysicSector_def arr_get_def)
  have 3: "GetPhysicSector P h d k =
        Inr (ind_dataSectors (Indirect_of_words P ws2) !
               nat ((k - int (NumDirect P) - int (NumIndirect P)) mod int (NumIndirect P)))"
    if a: "int (NumDirect P) + int (NumIndirect P) \<le> k \<and>
    doubleIndirectSector h \<noteq> - 1 \<and> ReadSector d (doubleIndirectSector h) = Inr ws \<and>
    arr_get (ind_dataSectors (Indirect_of_words P ws))
      ((k - int (NumDirect P) - int (NumIndirect P)) div int (NumIndirect P)) = Inr s \<and>
    ReadSector d s = Inr ws2"
  proof -
    from a have "NumIndirect P \<noteq> 0"
      by (auto simp: arr_get_def split: if_splits)
    then have m: "0 \<le> (k - int (NumDirect P) - int (NumIndirect P)) mod int (NumIndirect P)"
      "(k - int (NumDirect P) - int (NumIndirect P)) mod int (NumIndirect P) < int (NumIndirect P)"
      by simp_all
    have e: "k - (int (NumDirect P) + int (NumIndirect P)) =
        k - int (NumDirect P) - int (NumIndirect P)"
      by simp
    from a m show ?thesis
      by (simp add: GetPhysicSector_def e arr_get_def Let_def)
  qed
  have 4: "ByteToSector P h d offset = GetPhysicSector P h d (offset div int (SectorSize P))"
    if "0 \<le> offset"
    using that by (simp add: ByteToSector_def c_div_def sgn_if zdiv_eq_0_iff)
  from 1 2 3 4 show ?thesis by blast
qed

theorem GetPhysicSector_levels_witness:
  "GetPhysicSector params_ex hdr_ex disk_ex 1 = Inr 1 \<and>
   GetPhysicSector params_ex hdr_ex (blank_disk 16) 1 = Inr 1 \<and>
   ReadSector disk_ex (singleIndirectSector hdr_ex) = Inr [7, 4, 5, 6, 7, 8, 9, 10] \<and>
   GetPhysicSector params_ex hdr_ex disk_ex 5 = Inr 6 \<and>
   ReadSector disk_ex (doubleIndirectSector hdr_ex) = Inr [1, 12, - 1, - 1, - 1, - 1, - 1, - 1] \<and>
   ReadSector disk_ex 12 = Inr [1, 13, - 1, - 1, - 1, - 1, - 1, - 1] \<and>
   GetPhysicSector params_ex hdr_ex disk_ex 10 = Inr 13 \<and>
   ByteToSector params_ex hdr_ex disk_ex 330 = Inr 13"
proof -
  have r1: "ReadSector disk_ex (singleIndirectSector hdr_ex) = Inr [7, 4, 5, 6, 7, 8, 9, 10]"
    by code_simp
  have r2: "ReadSector disk_ex (doubleIndirectSector hdr_ex) =
      Inr [1, 12, - 1, - 1, - 1, - 1, - 1, - 1]"
    by code_simp
  have r3: "ReadSector disk_ex 12 = Inr [1, 13, - 1, - 1, - 1, - 1, - 1, - 1]"
    by code_simp
  have i1: "Indirect_of_words params_ex [7, 4, 5, 6, 7, 8, 9, 10] =
      \<lparr>ind_numSectors = 7, ind_dataSectors = [4, 5, 6, 7, 8, 9, 10]\<rparr>"
    by code_simp
  have i2: "Indirect_of_words params_ex [1, 12, - 1, - 1, - 1, - 1, - 1, - 1] =
      \<lparr>ind_numSectors = 1, ind_dataSectors = [12, - 1, - 1, - 1, - 1, - 1, - 1]\<rparr>"
    by code_simp
  have i3: "Indirect_of_words params_ex [1, 13, - 1, - 1, - 1, - 1, - 1, - 1] =
      \<lparr>ind_numSectors = 1, ind_dataSectors = [13, - 1, - 1, - 1, - 1, - 1, - 1]\<rparr>"
    by code_simp
  have p: "NumDirect params_ex = 3" "NumIndirect params_ex = 7" "SectorSize params_ex = 32"
    by (simp_all add: params_ex_def)
  have f: "dataSectors hdr_ex = [0, 1, 2]" "singleIndirectSector hdr_ex = 3"
    "doubleIndirectSector hdr_ex = 11"
    by (simp_all add: hdr_ex_def)
  have n: "nat 1 = Suc 0" "nat 2 = Suc (Suc 0)" by simp_all
  from GetPhysicSector_levels[of 1 params_ex hdr_ex disk_ex "blank_disk 16" 5
      "[7, 4, 5, 6, 7, 8, 9, 10]" 10 "[1, 12, - 1, - 1, - 1, - 1, - 1, - 1]" 12
      "[1, 13, - 1, - 1, - 1, - 1, - 1, - 1]" 330]
    r1 r2 r3
  show ?thesis
    by (simp add: i1 i2 i3 p f arr_get_def n)
qed

subsection \<open>Header persistence\<close>

text \<open>
  Claim C7: writing a header to a sector of the disk and fetching that sector gives the
  same header back, in every field, whatever the object fetched into held before. The
  header has \<open>NumDirect\<close> direct pointers and fits a sector.
\<close>

theorem WriteBack_FetchFrom:
  assumes "length (dataSectors h) = NumDirect P"
    and "length (dataSectors h0) = NumDirect P"
    and "NumDirect P + 5 \<le> SectorSize P div 4"
    and "0 \<le> n" "n < int (length d)"
  shows "\<exists>d'. WriteBack P h d n = Inr d' \<and> FetchFrom h0 d' n = Inr h"
  using assms
  by (simp add: WriteBack_def WriteSector_def FetchFrom_def ReadSector_def FileHeader_of_words_of)

theorem WriteBack_FetchFrom_witness:
  "length (dataSectors hdr_ex4) = NumDirect params_ex \<and>
   length (dataSectors (FileHeader_new params_ex)) = NumDirect params_ex \<and>
   NumDirect params_ex + 5 \<le> SectorSize params_ex div 4 \<and>
   (0::int) \<le> 5 \<and> 5 < int (length disk_ex4) \<and>
   WriteBack params_ex hdr_ex4 disk_ex4 5 = Inr (disk_ex4[5 := [128, 4, 0, 1, 2, 3, - 1, - 1]]) \<and>
   FetchFrom (FileHeader_new params_ex) (disk_ex4[5 := [128, 4, 0, 1, 2, 3, - 1, - 1]]) 5 =
     Inr hdr_ex4"
proof -
  have a: "length (dataSectors hdr_ex4) = NumDirect params_ex"
    "length (dataSectors (FileHeader_new params_ex)) = NumDirect params_ex"
    "NumDirect params_ex + 5 \<le> SectorSize params_ex div 4"
    "(0::int) \<le> 5" "5 < int (length disk_ex4)"
    by (simp_all add: hdr_ex4_def params_ex_def FileHeader_new_def disk_ex4_def blank_disk_def)
  have w: "WriteBack params_ex hdr_ex4 disk_ex4 5 =
      Inr (disk_ex4[5 := [128, 4, 0, 1, 2, 3, - 1, - 1]])"
    by (simp add: WriteBack_def WriteSector_def words_of_FileHeader_def hdr_ex4_def
        params_ex_def disk_ex4_def blank_disk_def)
  from WriteBack_FetchFrom[OF a] w a show ?thesis by simp
qed

subsection \<open>Deallocation\<close>

lemma Deallocate_loop_clears:
  "Deallocate_loop P h d i fm = Inr fm' \<Longrightarrow>
     length fm' = length fm \<and>
     (\<forall>n < length fm. fm' ! n =
        (fm ! n \<and> \<not> (\<exists>j. i \<le> j \<and> j < numSectors h \<and> GetPhysicSector P h d j = Inr (int n))))"
proof (induction P h d i fm rule: Deallocate_loop.induct)
  case (1 P h d i fm)
  note prems = "1.prems"[unfolded Deallocate_loop.simps[of P h d i fm]]
  show ?case
  proof (cases "i < numSectors h")
    case False
    with prems show ?thesis by simp
  next
    case True
    from prems True obtain pos where pos: "GetPhysicSector P h d i = Inr pos"
      by (cases "GetPhysicSector P h d i") simp_all
    from prems True pos obtain b where b: "Test fm pos = Inr b"
      by (cases "Test fm pos") simp_all
    from prems True pos b have bt: "b" by (cases b) simp_all
    from prems True pos b bt obtain fm1 where fm1: "Clear fm pos = Inr fm1"
      by (cases "Clear fm pos") simp_all
    from prems True pos b bt fm1 have r: "Deallocate_loop P h d (i + 1) fm1 = Inr fm'"
      by simp
    from fm1 have c: "0 \<le> pos" "pos < int (length fm)" "fm1 = fm[nat pos := False]"
      by (simp_all add: Clear_Inr)
    note IH = "1.IH"[OF True pos b _ fm1 r]
    from bt have IH': "length fm' = length fm1"
      "\<And>n. n < length fm1 \<Longrightarrow> fm' ! n =
        (fm1 ! n \<and> \<not> (\<exists>j. i + 1 \<le> j \<and> j < numSectors h \<and> GetPhysicSector P h d j = Inr (int n)))"
      using IH by simp_all
    have len: "length fm' = length fm" using IH' c by simp
    have "fm' ! n =
        (fm ! n \<and> \<not> (\<exists>j. i \<le> j \<and> j < numSectors h \<and> GetPhysicSector P h d j = Inr (int n)))"
      if n: "n < length fm" for n
    proof (cases "int n = pos")
      case True
      then have "n = nat pos" by simp
      with IH'(2)[of n] n c have "\<not> fm' ! n" by simp
      moreover have "\<exists>j. i \<le> j \<and> j < numSectors h \<and> GetPhysicSector P h d j = Inr (int n)"
        using pos True \<open>i < numSectors h\<close> by (intro exI[of _ i]) simp
      ultimately show ?thesis by simp
    next
      case False
      then have ne: "n \<noteq> nat pos" using c by auto
      have "(\<exists>j. i + 1 \<le> j \<and> j < numSectors h \<and> GetPhysicSector P h d j = Inr (int n)) \<longleftrightarrow>
            (\<exists>j. i \<le> j \<and> j < numSectors h \<and> GetPhysicSector P h d j = Inr (int n))"
      proof
        assume "\<exists>j. i + 1 \<le> j \<and> j < numSectors h \<and> GetPhysicSector P h d j = Inr (int n)"
        then obtain j where "i + 1 \<le> j" "j < numSectors h" "GetPhysicSector P h d j = Inr (int n)"
          by blast
        then show "\<exists>j. i \<le> j \<and> j < numSectors h \<and> GetPhysicSector P h d j = Inr (int n)"
          by (intro exI[of _ j]) simp
      next
        assume "\<exists>j. i \<le> j \<and> j < numSectors h \<and> GetPhysicSector P h d j = Inr (int n)"
        then obtain j where j: "i \<le> j" "j < numSectors h" "GetPhysicSector P h d j = Inr (int n)"
          by blast
        with pos False have "j \<noteq> i" by auto
        with j show "\<exists>j. i + 1 \<le> j \<and> j < numSectors h \<and> GetPhysicSector P h d j = Inr (int n)"
          by (intro exI[of _ j]) simp
      qed
      with IH'(2)[of n] n c ne show ?thesis by simp
    qed
    with len show ?thesis by blast
  qed
qed

lemma release_if_marked_clears:
  "release_if_marked fm s = Inr fm' \<Longrightarrow>
     length fm' = length fm \<and>
     (\<forall>n < length fm. fm' ! n = (fm ! n \<and> \<not> (s \<noteq> - 1 \<and> int n = s)))"
  by (auto simp: release_if_marked_def Test_Inr Clear_Inr nth_list_update
           split: if_splits sum.splits)

lemma Deallocate_Inr:
  "Deallocate P h fm d = Inr r \<longleftrightarrow>
     (\<exists>fm1 fm2 fm3. Deallocate_loop P h d 0 fm = Inr fm1 \<and>
        release_if_marked fm1 (singleIndirectSector h) = Inr fm2 \<and>
        release_if_marked fm2 (doubleIndirectSector h) = Inr fm3 \<and> r = (h, fm3, d))"
  by (auto simp: Deallocate_def split: sum.splits)

lemma Deallocate_clears:
  assumes "Deallocate P h fm d = Inr (h', fm', d')"
  shows "length fm' = length fm"
    and "n < length fm \<Longrightarrow> fm' ! n = (fm ! n \<and> int n \<notin> released P h d)"
proof -
  from assms obtain fm1 fm2 where
    1: "Deallocate_loop P h d 0 fm = Inr fm1" and
    2: "release_if_marked fm1 (singleIndirectSector h) = Inr fm2" and
    3: "release_if_marked fm2 (doubleIndirectSector h) = Inr fm'"
    by (auto simp: Deallocate_Inr)
  note a = Deallocate_loop_clears[OF 1] and b = release_if_marked_clears[OF 2]
    and c = release_if_marked_clears[OF 3]
  from a b c show "length fm' = length fm" by simp
  assume n: "n < length fm"
  from a n have "fm1 ! n = (fm ! n \<and> \<not> (\<exists>j. 0 \<le> j \<and> j < numSectors h \<and> GetPhysicSector P h d j = Inr (int n)))"
    by blast
  moreover from a b n have "fm2 ! n = (fm1 ! n \<and> \<not> (singleIndirectSector h \<noteq> - 1 \<and> int n = singleIndirectSector h))"
    by simp
  moreover from a b c n have "fm' ! n = (fm2 ! n \<and> \<not> (doubleIndirectSector h \<noteq> - 1 \<and> int n = doubleIndirectSector h))"
    by simp
  ultimately show "fm' ! n = (fm ! n \<and> int n \<notin> released P h d)"
    unfolding released_def by auto
qed

text \<open>
  Claim C5: when \<open>Deallocate\<close> returns, the map it leaves marks what the map marked
  before except the sectors of the logical blocks \<open>0 .. numSectors - 1\<close>, as
  \<open>GetPhysicSector\<close> translates them, and the sectors \<open>singleIndirectSector\<close> and
  \<open>doubleIndirectSector\<close> where these are not \<open>-1\<close>. Every other sector keeps its
  mark, the sectors of the secondary indirect blocks among them.
\<close>

theorem Deallocate_clears_exactly:
  assumes "Deallocate P h fm d = Inr (h', fm', d')"
  shows "length fm' = length fm \<and> marked fm' = marked fm - released P h d"
proof -
  note c = Deallocate_clears[OF assms]
  have "s \<in> marked fm' \<longleftrightarrow> s \<in> marked fm - released P h d" for s
  proof (cases "0 \<le> s \<and> s < int (length fm)")
    case True
    then have "nat s < length fm" "int (nat s) = s" by linarith+
    with c(2)[of "nat s"] c(1) True show ?thesis unfolding marked_def by simp
  next
    case False
    with c(1) show ?thesis by (auto simp: marked_def)
  qed
  then have "marked fm' = marked fm - released P h d"
    by (intro set_eqI)
  with c(1) show ?thesis by simp
qed

theorem Deallocate_clears_exactly_witness:
  "Deallocate params_ex hdr_ex map_ex disk_ex =
     Inr (hdr_ex, (replicate 16 False)[12 := True], disk_ex) \<and>
   length ((replicate 16 False)[12 := True]) = length map_ex \<and>
   marked ((replicate 16 False)[12 := True]) = marked map_ex - released params_ex hdr_ex disk_ex \<and>
   12 \<in> marked ((replicate 16 False)[12 := True])"
proof -
  have "12 \<in> marked ((replicate 16 False)[12 := True])"
    by (simp add: marked_def)
  with Deallocate_clears_exactly[OF Deallocate_ex] Deallocate_ex show ?thesis by simp
qed

text \<open>
  Claim C10: \<open>Deallocate\<close> changes the free-sector map only: the header it leaves is the
  header it was given, in every field, and so is the disk.
\<close>

theorem Deallocate_header_unchanged:
  "Deallocate P h fm d = Inr (h', fm', d') \<Longrightarrow> h' = h \<and> d' = d"
  by (auto simp: Deallocate_Inr)


theorem Deallocate_header_unchanged_witness:
  "Deallocate params_ex hdr_ex map_ex disk_ex =
     Inr (hdr_ex, (replicate 16 False)[12 := True], disk_ex) \<and>
   hdr_ex \<noteq> FileHeader_new params_ex"
proof -
  have "hdr_ex \<noteq> FileHeader_new params_ex"
    by (simp add: hdr_ex_def FileHeader_new_def)
  with Deallocate_header_unchanged[OF Deallocate_ex] Deallocate_ex show ?thesis by simp
qed
lemma Deallocate_loop_unmarked:
  "i0 \<le> i \<Longrightarrow> i < numSectors h \<Longrightarrow> GetPhysicSector P h d i = Inr pos \<Longrightarrow>
   Test fm pos \<noteq> Inr True \<Longrightarrow> \<exists>e. Deallocate_loop P h d i0 fm = Inl e"
proof (induction P h d i0 fm rule: Deallocate_loop.induct)
  case (1 P h d i0 fm)
  note u = Deallocate_loop.simps[of P h d i0 fm]
  from "1.prems" have lt: "i0 < numSectors h" by simp
  show ?case
  proof (cases "GetPhysicSector P h d i0")
    case (Inl e)
    with lt show ?thesis by (simp add: u)
  next
    case p: (Inr p)
    show ?thesis
    proof (cases "Test fm p")
      case (Inl e)
      with lt p show ?thesis by (simp add: u)
    next
      case b: (Inr b)
      show ?thesis
      proof (cases b)
        case False
        with lt p b show ?thesis by (simp add: u)
      next
        case True
        from b True have rng: "0 \<le> p" "p < int (length fm)" "fm ! nat p"
          by (simp_all add: Test_Inr)
        then have c: "Clear fm p = Inr (fm[nat p := False])"
          by (simp add: Clear_def)
        have ne: "i0 \<noteq> i"
          using p b True "1.prems"(3,4) by auto
        with "1.prems"(1) have le: "i0 + 1 \<le> i" by simp
        have t: "Test (fm[nat p := False]) pos \<noteq> Inr True"
          using "1.prems"(4) rng by (auto simp: Test_def nth_list_update split: if_splits)
        from True have nn: "\<not> \<not> b" by simp
        from "1.IH"[OF lt p b nn c le "1.prems"(2,3) t]
        obtain e where "Deallocate_loop P h d (i0 + 1) (fm[nat p := False]) = Inl e"
          by blast
        with lt p b True c show ?thesis by (simp add: u)
      qed
    qed
  qed
qed

text \<open>
  Claim C6, as amended: the release of the sector of a logical block is preceded by the
  assertion that the sector is marked, so that \<open>Deallocate\<close> ends in a fault when one of
  them is not. The sectors \<open>singleIndirectSector\<close> and \<open>doubleIndirectSector\<close> are
  released under a test instead (lines 134 and 138): one that is not marked is passed
  over, and \<open>Deallocate\<close> returns.
\<close>

theorem Deallocate_asserts_data_sectors_only:
  "(0 \<le> i \<and> i < numSectors h \<and> GetPhysicSector P h d i = Inr pos \<and> Test fm pos = Inr False \<longrightarrow>
      (\<exists>e. Deallocate P h fm d = Inl e)) \<and>
   (Deallocate_loop P h d 0 fm0 = Inr fm1 \<and> singleIndirectSector h \<noteq> - 1 \<and>
    Test fm1 (singleIndirectSector h) = Inr False \<and>
    release_if_marked fm1 (doubleIndirectSector h) = Inr fm2 \<longrightarrow>
      Deallocate P h fm0 d = Inr (h, fm2, d)) \<and>
   (Deallocate_loop P h d 0 fm0 = Inr fm1 \<and>
    release_if_marked fm1 (singleIndirectSector h) = Inr fm2 \<and>
    doubleIndirectSector h \<noteq> - 1 \<and> Test fm2 (doubleIndirectSector h) = Inr False \<longrightarrow>
      Deallocate P h fm0 d = Inr (h, fm2, d))"
proof -
  have 1: "\<exists>e. Deallocate P h fm d = Inl e"
    if "0 \<le> i \<and> i < numSectors h \<and> GetPhysicSector P h d i = Inr pos \<and> Test fm pos = Inr False"
  proof -
    from that have "Test fm pos \<noteq> Inr True" by simp
    with that Deallocate_loop_unmarked[of 0 i h P d pos fm]
    obtain e where "Deallocate_loop P h d 0 fm = Inl e" by blast
    then show ?thesis by (simp add: Deallocate_def)
  qed
  have 2: "Deallocate P h fm0 d = Inr (h, fm2, d)"
    if "Deallocate_loop P h d 0 fm0 = Inr fm1 \<and> singleIndirectSector h \<noteq> - 1 \<and>
        Test fm1 (singleIndirectSector h) = Inr False \<and>
        release_if_marked fm1 (doubleIndirectSector h) = Inr fm2"
    using that by (simp add: Deallocate_def release_if_marked_def)
  have 3: "Deallocate P h fm0 d = Inr (h, fm2, d)"
    if "Deallocate_loop P h d 0 fm0 = Inr fm1 \<and>
        release_if_marked fm1 (singleIndirectSector h) = Inr fm2 \<and>
        doubleIndirectSector h \<noteq> - 1 \<and> Test fm2 (doubleIndirectSector h) = Inr False"
    using that by (simp add: Deallocate_def release_if_marked_def)
  from 1 2 3 show ?thesis by blast
qed

theorem Deallocate_asserts_data_sectors_only_witness:
  "GetPhysicSector params_ex hdr_ex disk_ex 0 = Inr 0 \<and>
   Test (map_ex[0 := False]) 0 = Inr False \<and>
   Deallocate params_ex hdr_ex (map_ex[0 := False]) disk_ex = Inl AssertFailed \<and>
   Deallocate_loop params_ex hdr_ex disk_ex 0 (map_ex[3 := False, 11 := False]) =
     Inr ((replicate 16 False)[12 := True]) \<and>
   Test ((replicate 16 False)[12 := True]) (singleIndirectSector hdr_ex) = Inr False \<and>
   Test ((replicate 16 False)[12 := True]) (doubleIndirectSector hdr_ex) = Inr False \<and>
   Deallocate params_ex hdr_ex (map_ex[3 := False, 11 := False]) disk_ex =
     Inr (hdr_ex, (replicate 16 False)[12 := True], disk_ex)"
proof -
  have g: "GetPhysicSector params_ex hdr_ex disk_ex 0 = Inr 0" by code_simp
  have t: "Test (map_ex[0 := False]) 0 = Inr False" by code_simp
  have n: "(0::int) \<le> 0 \<and> 0 < numSectors hdr_ex" by (simp add: hdr_ex_def)
  have e: "Deallocate params_ex hdr_ex (map_ex[0 := False]) disk_ex = Inl AssertFailed"
    by code_simp
  have l: "Deallocate_loop params_ex hdr_ex disk_ex 0 (map_ex[3 := False, 11 := False]) =
     Inr ((replicate 16 False)[12 := True])" by code_simp
  have s: "singleIndirectSector hdr_ex \<noteq> - 1" "doubleIndirectSector hdr_ex \<noteq> - 1"
    by (simp_all add: hdr_ex_def)
  have t1: "Test ((replicate 16 False)[12 := True]) (singleIndirectSector hdr_ex) = Inr False"
    by code_simp
  have t2: "Test ((replicate 16 False)[12 := True]) (doubleIndirectSector hdr_ex) = Inr False"
    by code_simp
  have r1: "release_if_marked ((replicate 16 False)[12 := True]) (singleIndirectSector hdr_ex) =
      Inr ((replicate 16 False)[12 := True])" by code_simp
  have r2: "release_if_marked ((replicate 16 False)[12 := True]) (doubleIndirectSector hdr_ex) =
      Inr ((replicate 16 False)[12 := True])" by code_simp
  from Deallocate_asserts_data_sectors_only[of 0 hdr_ex params_ex disk_ex 0 "map_ex[0 := False]"
      "map_ex[3 := False, 11 := False]" "(replicate 16 False)[12 := True]"
      "(replicate 16 False)[12 := True]"]
    g t n e l s t1 t2 r1 r2
  show ?thesis by simp
qed

text \<open>
  Claim C6 as stated, that every release asserts the mark, fails for the index sectors:
  with sector 3, the single-indirect block of the header, not marked, \<open>Deallocate\<close>
  returns without a fault.
\<close>

theorem Deallocate_skips_unmarked_index_sector:
  "singleIndirectSector hdr_ex4 = 3 \<and>
   Test [True, True, True, False, True, False] 3 = Inr False \<and>
   Deallocate params_ex hdr_ex4 [True, True, True, False, True, False] disk_ex4 =
     Inr (hdr_ex4, replicate 6 False, disk_ex4)"
  by code_simp
subsection \<open>Allocation: the free-sector map\<close>

lemma divRoundUp_le_iff:
  assumes "0 < s"
  shows "divRoundUp n s \<le> m \<longleftrightarrow> n \<le> m * s"
proof -
  define q where "q = n div s"
  define r where "r = n mod s"
  have n: "q * s + r = n" by (simp add: q_def r_def)
  have r: "0 \<le> r" "r < s" using assms by (simp_all add: r_def)
  have d: "divRoundUp n s = q + (if r > 0 then 1 else 0)"
    by (simp add: divRoundUp_def q_def r_def)
  have mono: "a \<le> b \<Longrightarrow> a * s \<le> b * s" for a b :: int
    using assms by (simp add: mult_right_mono)
  show ?thesis
  proof
    assume "divRoundUp n s \<le> m"
    with d have "q + (if r > 0 then 1 else 0) \<le> m" by simp
    then have "(q + (if r > 0 then 1 else 0)) * s \<le> m * s" by (rule mono)
    then have "q * s + (if r > 0 then s else 0) \<le> m * s"
      by (simp add: algebra_simps split: if_splits)
    with n r show "n \<le> m * s" by (auto split: if_splits)
  next
    assume a: "n \<le> m * s"
    show "divRoundUp n s \<le> m"
    proof (rule ccontr)
      assume "\<not> divRoundUp n s \<le> m"
      with d have "m + 1 \<le> q + (if r > 0 then 1 else 0)" by simp
      then have "(m + 1) * s \<le> (q + (if r > 0 then 1 else 0)) * s" by (rule mono)
      then have "m * s + s \<le> q * s + (if r > 0 then s else 0)"
        by (simp add: algebra_simps split: if_splits)
      with n r a assms show False by (auto split: if_splits)
    qed
  qed
qed

lemma first_clear_Some:
  "first_clear m = Some i \<Longrightarrow> i < length m \<and> \<not> m ! i"
proof (induction m arbitrary: i)
  case Nil
  then show ?case by simp
next
  case (Cons b bs)
  then show ?case by (cases b) (auto split: if_splits)
qed

lemma first_clear_None: "first_clear m = None \<longleftrightarrow> NumClear m = 0"
proof (induction m)
  case Nil
  then show ?case by (simp add: NumClear_def)
next
  case (Cons b bs)
  then show ?case by (cases b) (simp_all add: NumClear_def)
qed

lemma NumClear_nonneg: "0 \<le> NumClear m"
  by (simp add: NumClear_def)

lemma NumClear_mark:
  "i < length m \<Longrightarrow> \<not> m ! i \<Longrightarrow> NumClear (m[i := True]) = NumClear m - 1"
proof (induction m arbitrary: i)
  case Nil
  then show ?case by simp
next
  case (Cons b bs)
  show ?case
  proof (cases i)
    case 0
    with Cons.prems show ?thesis by (simp add: NumClear_def)
  next
    case (Suc j)
    with Cons.prems have "j < length bs" "\<not> bs ! j" by simp_all
    from Cons.IH[OF this] have "NumClear (bs[j := True]) = NumClear bs - 1" .
    moreover have "0 < NumClear bs"
    proof -
      from \<open>j < length bs\<close> have "bs ! j \<in> set bs" by (rule nth_mem)
      with \<open>\<not> bs ! j\<close> have "filter Not bs \<noteq> []"
        by (auto simp: filter_empty_conv)
      then show ?thesis by (simp add: NumClear_def)
    qed
    ultimately show ?thesis using Suc by (cases b) (simp_all add: NumClear_def)
  qed
qed

lemma marked_mark:
  assumes "i < length m"
  shows "marked (m[i := True]) = insert (int i) (marked m)"
proof (intro set_eqI)
  fix s
  show "s \<in> marked (m[i := True]) \<longleftrightarrow> s \<in> insert (int i) (marked m)"
  proof (cases "s = int i")
    case True
    with assms show ?thesis by (simp add: marked_def)
  next
    case False
    then have "0 \<le> s \<Longrightarrow> nat s \<noteq> i" by auto
    with assms False show ?thesis by (auto simp: marked_def nth_list_update)
  qed
qed

lemma FindAndSet_free:
  assumes "0 < NumClear m" and "FindAndSet m = (s, m')"
  shows "0 \<le> s" "s < int (length m)" "s \<notin> marked m" "marked m' = insert s (marked m)"
    "length m' = length m" "NumClear m' = NumClear m - 1"
proof -
  from assms(1) obtain i where i: "first_clear m = Some i"
    by (cases "first_clear m") (simp_all add: first_clear_None)
  note f = first_clear_Some[OF i]
  from assms(2) i have e: "s = int i" "m' = m[i := True]"
    by (simp_all add: FindAndSet_def)
  from e f show "0 \<le> s" "s < int (length m)" "length m' = length m" by simp_all
  from e f show "s \<notin> marked m" by (simp add: marked_def)
  from e f show "marked m' = insert s (marked m)" by (simp add: marked_mark)
  from e f show "NumClear m' = NumClear m - 1" by (simp add: NumClear_mark)
qed

lemma length_FindAndSet: "FindAndSet m = (s, m') \<Longrightarrow> length m' = length m"
  by (auto simp: FindAndSet_def split: option.splits)

lemma draw_n_length: "draw_n k m = (xs, m') \<Longrightarrow> length xs = k \<and> length m' = length m"
proof (induction k arbitrary: m xs m')
  case 0
  then show ?case by simp
next
  case (Suc k)
  obtain s m1 where s: "FindAndSet m = (s, m1)" by (cases "FindAndSet m")
  obtain ss m2 where ss: "draw_n k m1 = (ss, m2)" by (cases "draw_n k m1")
  from Suc.prems s ss have e: "xs = s # ss" "m' = m2" by simp_all
  from Suc.IH[OF ss] length_FindAndSet[OF s] e show ?case by simp
qed

lemma draw_n_fresh:
  assumes "int k \<le> NumClear m" and "draw_n k m = (xs, m')"
  shows "distinct xs \<and> set xs \<inter> marked m = {} \<and> marked m' = marked m \<union> set xs \<and>
         NumClear m' = NumClear m - int k \<and> (\<forall>s \<in> set xs. 0 \<le> s \<and> s < int (length m))"
  using assms
proof (induction k arbitrary: m xs m')
  case 0
  then show ?case by simp
next
  case (Suc k)
  obtain s m1 where s: "FindAndSet m = (s, m1)" by (cases "FindAndSet m")
  obtain ss m2 where ss: "draw_n k m1 = (ss, m2)" by (cases "draw_n k m1")
  from Suc.prems(2) s ss have e: "xs = s # ss" "m' = m2" by simp_all
  from Suc.prems(1) have pos: "0 < NumClear m" by simp
  note f = FindAndSet_free[OF pos s]
  from Suc.prems(1) f(6) have "int k \<le> NumClear m1" by simp
  from Suc.IH[OF this ss] have IH: "distinct ss" "set ss \<inter> marked m1 = {}"
    "marked m2 = marked m1 \<union> set ss" "NumClear m2 = NumClear m1 - int k"
    "\<forall>s \<in> set ss. 0 \<le> s \<and> s < int (length m1)"
    by simp_all
  from IH(2) f(4) have ns: "s \<notin> set ss" by auto
  have 1: "distinct xs" using e IH(1) ns by simp
  have 2: "set xs \<inter> marked m = {}" using e IH(2) f(3,4) by auto
  have 3: "marked m' = marked m \<union> set xs" using e IH(3) f(4) by auto
  have 4: "NumClear m' = NumClear m - int (Suc k)" using e IH(4) f(6) by simp
  have 5: "\<forall>s \<in> set xs. 0 \<le> s \<and> s < int (length m)" using e IH(5) f(1,2,5) by simp
  from 1 2 3 4 5 show ?case by blast
qed

lemma length_write_at [simp]:
  "n + length xs \<le> length ds \<Longrightarrow> length (write_at ds n xs) = length ds"
  by (simp add: write_at_def)

lemma write_at_Nil [simp]: "write_at ds n [] = ds"
  by (simp add: write_at_def)

lemma write_at_Cons:
  "n < length ds \<Longrightarrow> write_at (ds[n := x]) (Suc n) xs = write_at ds n (x # xs)"
  by (simp add: write_at_def take_Suc_conv_app_nth)

lemma nth_write_at:
  assumes "n + length xs \<le> length ds" "i < length ds"
  shows "write_at ds n xs ! i =
     (if i < n then ds ! i else if i < n + length xs then xs ! (i - n) else ds ! i)"
  using assms by (auto simp: write_at_def nth_append)

subsection \<open>Allocation: the two fill loops\<close>

lemma AllocateDirectBlocks_closed:
  assumes S: "0 < SectorSize P" and D: "0 < NumDirect P"
    and len: "length (dataSectors h) = NumDirect P"
    and ns: "0 \<le> numSectors h" "numSectors h \<le> int (NumDirect P)"
    and sync: "numSectors h = 0 \<and> numBytes h = 0 \<or>
               1 \<le> numSectors h \<and> numBytes h = (numSectors h - 1) * int (SectorSize P) \<and>
               numBytes h < fileSize"
    and k: "k = nat (min (int (NumDirect P)) (divRoundUp fileSize (int (SectorSize P))) - numSectors h)"
    and dr: "draw_n k fm = (xs, fm')"
  shows "AllocateDirectBlocks P fileSize h fm =
     Inr (h\<lparr>numBytes := min fileSize (int (NumDirect P) * int (SectorSize P)),
            numSectors := numSectors h + int k,
            dataSectors := write_at (dataSectors h) (nat (numSectors h)) xs\<rparr>, fm')"
  using len ns sync k dr
proof (induction k arbitrary: h fm xs)
  case 0
  let ?S = "int (SectorSize P)" and ?D = "int (NumDirect P)"
  let ?n = "numSectors h"
  have Spos: "0 < ?S" using S by simp
  note le = divRoundUp_le_iff[OF Spos]
  from "0.prems"(6) have e: "xs = []" "fm' = fm" by simp_all
  have nb0: "0 \<le> numBytes h" and nblt: "numBytes h < ?D * ?S"
  proof -
    from "0.prems"(4) show "0 \<le> numBytes h"
    proof
      assume "?n = 0 \<and> numBytes h = 0"
      then show ?thesis by simp
    next
      assume a: "1 \<le> ?n \<and> numBytes h = (?n - 1) * ?S \<and> numBytes h < fileSize"
      then have "0 \<le> (?n - 1) * ?S" using Spos by simp
      with a show ?thesis by simp
    qed
    from "0.prems"(4) show "numBytes h < ?D * ?S"
    proof
      assume "?n = 0 \<and> numBytes h = 0"
      then show ?thesis using Spos D by simp
    next
      assume a: "1 \<le> ?n \<and> numBytes h = (?n - 1) * ?S \<and> numBytes h < fileSize"
      from "0.prems"(3) have "?n - 1 < ?D" by simp
      then have "(?n - 1) * ?S < ?D * ?S" using Spos by (simp add: mult_less_cancel_right)
      with a show ?thesis by simp
    qed
  qed
  from "0.prems"(5) have m: "min ?D (divRoundUp fileSize ?S) \<le> ?n" by simp
  show ?case
  proof (cases "fileSize \<le> ?n * ?S")
    case True
    from "0.prems"(3) have "?n * ?S \<le> ?D * ?S" using Spos by (simp add: mult_right_mono)
    with True have "min fileSize (?D * ?S) = fileSize" by simp
    with True nb0 nblt e show ?thesis
      by (subst AllocateDirectBlocks.simps) simp
  next
    case False
    then have "\<not> divRoundUp fileSize ?S \<le> ?n" by (simp add: le)
    with m "0.prems"(3) have eq: "?n = ?D" by simp
    with False have mn: "min fileSize (?D * ?S) = ?D * ?S" by simp
    let ?h1 = "h\<lparr>numBytes := ?n * ?S\<rparr>"
    have 1: "AllocateDirectBlocks P fileSize h fm = AllocateDirectBlocks P fileSize ?h1 fm"
      using False nb0 nblt eq
      by (subst AllocateDirectBlocks.simps) (simp add: Let_def)
    have 2: "AllocateDirectBlocks P fileSize ?h1 fm = Inr (?h1, fm)"
      using eq by (subst AllocateDirectBlocks.simps) simp
    from 1 2 mn eq e show ?thesis by simp
  qed
next
  case (Suc k)
  let ?S = "int (SectorSize P)" and ?D = "int (NumDirect P)"
  let ?n = "numSectors h"
  have Spos: "0 < ?S" using S by simp
  note le = divRoundUp_le_iff[OF Spos]
  from Suc.prems(5) have lt: "?n < ?D" "?n < divRoundUp fileSize ?S" by simp_all
  then have "\<not> divRoundUp fileSize ?S \<le> ?n" by simp
  then have big: "\<not> fileSize \<le> ?n * ?S" by (simp add: le)
  have nb0: "0 \<le> numBytes h" and nblt: "numBytes h < ?D * ?S"
  proof -
    from Suc.prems(4) show "0 \<le> numBytes h"
    proof
      assume "?n = 0 \<and> numBytes h = 0"
      then show ?thesis by simp
    next
      assume a: "1 \<le> ?n \<and> numBytes h = (?n - 1) * ?S \<and> numBytes h < fileSize"
      then have "0 \<le> (?n - 1) * ?S" using Spos by simp
      with a show ?thesis by simp
    qed
    from Suc.prems(4) show "numBytes h < ?D * ?S"
    proof
      assume "?n = 0 \<and> numBytes h = 0"
      then show ?thesis using Spos D by simp
    next
      assume a: "1 \<le> ?n \<and> numBytes h = (?n - 1) * ?S \<and> numBytes h < fileSize"
      from Suc.prems(3) have "?n - 1 < ?D" by simp
      then have "(?n - 1) * ?S < ?D * ?S" using Spos by (simp add: mult_less_cancel_right)
      with a show ?thesis by simp
    qed
  qed
  obtain sec fm1 where fs: "FindAndSet fm = (sec, fm1)" by (cases "FindAndSet fm")
  obtain ss where ss: "draw_n k fm1 = (ss, fm')" and xs: "xs = sec # ss"
    using Suc.prems(6) fs by (cases "draw_n k fm1") simp
  let ?ds = "(dataSectors h)[nat ?n := sec]"
  let ?h2 = "h\<lparr>numBytes := ?n * ?S, dataSectors := ?ds, numSectors := ?n + 1\<rparr>"
  have as: "arr_set (dataSectors h) ?n sec = Inr ?ds"
    using Suc.prems(1,2) lt by (simp add: arr_set_def)
  have step: "AllocateDirectBlocks P fileSize h fm = AllocateDirectBlocks P fileSize ?h2 fm1"
    using big nb0 nblt lt fs as
    by (subst AllocateDirectBlocks.simps) (simp add: Let_def)
  have IH: "AllocateDirectBlocks P fileSize ?h2 fm1 =
     Inr (?h2\<lparr>numBytes := min fileSize (?D * ?S),
            numSectors := numSectors ?h2 + int k,
            dataSectors := write_at (dataSectors ?h2) (nat (numSectors ?h2)) ss\<rparr>, fm')"
  proof (rule Suc.IH[OF _ _ _ _ _ ss])
    show "length (dataSectors ?h2) = NumDirect P" using Suc.prems(1) by simp
    show "0 \<le> numSectors ?h2" using Suc.prems(2) by simp
    show "numSectors ?h2 \<le> ?D" using lt by simp
    show "numSectors ?h2 = 0 \<and> numBytes ?h2 = 0 \<or>
          1 \<le> numSectors ?h2 \<and> numBytes ?h2 = (numSectors ?h2 - 1) * ?S \<and>
          numBytes ?h2 < fileSize"
      using Suc.prems(2) big by simp
    show "k = nat (min ?D (divRoundUp fileSize ?S) - numSectors ?h2)"
      using Suc.prems(5) by simp
  qed
  have w: "write_at ?ds (nat (?n + 1)) ss = write_at (dataSectors h) (nat ?n) xs"
  proof -
    have "nat (?n + 1) = Suc (nat ?n)" using Suc.prems(2) by simp
    moreover have "nat ?n < length (dataSectors h)" using Suc.prems(1,2) lt by simp
    ultimately show ?thesis using xs by (simp add: write_at_Cons)
  qed
  from step IH w show ?case by simp
qed

lemma AllocateIndirectSpace_loop_closed:
  assumes S: "0 < SectorSize P" and I: "0 < NumIndirect P"
    and len: "length (ind_dataSectors ind) = NumIndirect P"
    and c: "0 \<le> ind_numSectors ind" "ind_numSectors ind \<le> int (NumIndirect P)"
    and base: "0 \<le> base" "numSectors h = base + ind_numSectors ind"
    and sync: "ind_numSectors ind = 0 \<and> numBytes h = base * int (SectorSize P) \<and>
                 numBytes h < fileSize \<or>
               1 \<le> ind_numSectors ind \<and> numBytes h = (numSectors h - 1) * int (SectorSize P) \<and>
                 numBytes h < fileSize"
    and k: "k = nat (min (base + int (NumIndirect P)) (divRoundUp fileSize (int (SectorSize P)))
                     - numSectors h)"
    and dr: "draw_n k fm = (xs, fm')"
  shows "AllocateIndirectSpace_loop P fileSize (base * int (SectorSize P))
           (base * int (SectorSize P) + int (NumIndirect P) * int (SectorSize P)) h ind fm =
     Some (Inr (h\<lparr>numBytes := min fileSize ((base + int (NumIndirect P)) * int (SectorSize P)),
                  numSectors := numSectors h + int k\<rparr>,
                ind\<lparr>ind_dataSectors :=
                      write_at (ind_dataSectors ind) (nat (ind_numSectors ind)) xs,
                    ind_numSectors := ind_numSectors ind + int k\<rparr>,
                fm'))"
  using len c base(2) sync k dr
proof (induction k arbitrary: h ind fm xs)
  case 0
  let ?S = "int (SectorSize P)" and ?I = "int (NumIndirect P)"
  let ?n = "numSectors h" and ?c = "ind_numSectors ind"
  let ?start = "base * ?S" and ?end = "base * ?S + ?I * ?S"
  have Spos: "0 < ?S" using S by simp
  have Ipos: "0 < ?I" using I by simp
  note le = divRoundUp_le_iff[OF Spos]
  have endeq: "?end = (base + ?I) * ?S" by (simp add: algebra_simps)
  from "0.prems"(7) have e: "xs = []" "fm' = fm" by simp_all
  have lo: "?start \<le> numBytes h" and hi: "numBytes h < ?end"
  proof -
    from "0.prems"(5) show "?start \<le> numBytes h"
    proof
      assume "?c = 0 \<and> numBytes h = base * ?S \<and> numBytes h < fileSize"
      then show ?thesis by simp
    next
      assume a: "1 \<le> ?c \<and> numBytes h = (?n - 1) * ?S \<and> numBytes h < fileSize"
      with "0.prems"(4) have "base \<le> ?n - 1" by simp
      then have "base * ?S \<le> (?n - 1) * ?S" using Spos by (simp add: mult_right_mono)
      with a show ?thesis by simp
    qed
    from "0.prems"(5) show "numBytes h < ?end"
    proof
      assume "?c = 0 \<and> numBytes h = base * ?S \<and> numBytes h < fileSize"
      moreover have "0 < ?I * ?S" using Spos Ipos by simp
      ultimately show ?thesis by simp
    next
      assume a: "1 \<le> ?c \<and> numBytes h = (?n - 1) * ?S \<and> numBytes h < fileSize"
      from "0.prems"(3,4) have "?n - 1 < base + ?I" by simp
      then have "(?n - 1) * ?S < (base + ?I) * ?S" using Spos by (simp add: mult_less_cancel_right)
      with a endeq show ?thesis by simp
    qed
  qed
  from "0.prems"(6) have m: "min (base + ?I) (divRoundUp fileSize ?S) \<le> ?n" by simp
  have nle: "?n \<le> base + ?I" using "0.prems"(3,4) by simp
  show ?case
  proof (cases "fileSize \<le> ?n * ?S")
    case True
    from nle have "?n * ?S \<le> (base + ?I) * ?S" using Spos by (simp add: mult_right_mono)
    with True have "min fileSize ((base + ?I) * ?S) = fileSize" by simp
    with True lo hi e show ?thesis
      by (subst AllocateIndirectSpace_loop.simps) simp
  next
    case False
    then have "\<not> divRoundUp fileSize ?S \<le> ?n" by (simp add: le)
    with m nle have eq: "?n = base + ?I" by simp
    with "0.prems"(4) have ceq: "?c = ?I" by simp
    from eq False have mn: "min fileSize ((base + ?I) * ?S) = (base + ?I) * ?S" by simp
    let ?h1 = "h\<lparr>numBytes := ?n * ?S\<rparr>"
    have 1: "AllocateIndirectSpace_loop P fileSize ?start ?end h ind fm =
             AllocateIndirectSpace_loop P fileSize ?start ?end ?h1 ind fm"
      using False lo hi ceq
      by (subst AllocateIndirectSpace_loop.simps) (simp add: Let_def)
    have "\<not> numBytes ?h1 < ?end" using eq endeq by simp
    then have 2: "AllocateIndirectSpace_loop P fileSize ?start ?end ?h1 ind fm =
        Some (Inr (?h1, ind, fm))"
      by (subst AllocateIndirectSpace_loop.simps) simp
    from 1 2 mn eq e show ?thesis by simp
  qed
next
  case (Suc k)
  let ?S = "int (SectorSize P)" and ?I = "int (NumIndirect P)"
  let ?n = "numSectors h" and ?c = "ind_numSectors ind"
  let ?start = "base * ?S" and ?end = "base * ?S + ?I * ?S"
  have Spos: "0 < ?S" using S by simp
  have Ipos: "0 < ?I" using I by simp
  note le = divRoundUp_le_iff[OF Spos]
  have endeq: "?end = (base + ?I) * ?S" by (simp add: algebra_simps)
  from Suc.prems(6) have lt: "?n < base + ?I" "?n < divRoundUp fileSize ?S" by simp_all
  from lt(2) have "\<not> divRoundUp fileSize ?S \<le> ?n" by simp
  then have big: "\<not> fileSize \<le> ?n * ?S" by (simp add: le)
  from lt(1) Suc.prems(4) have clt: "?c < ?I" by simp
  have lo: "?start \<le> numBytes h" and hi: "numBytes h < ?end"
  proof -
    from Suc.prems(5) show "?start \<le> numBytes h"
    proof
      assume "?c = 0 \<and> numBytes h = base * ?S \<and> numBytes h < fileSize"
      then show ?thesis by simp
    next
      assume a: "1 \<le> ?c \<and> numBytes h = (?n - 1) * ?S \<and> numBytes h < fileSize"
      with Suc.prems(4) have "base \<le> ?n - 1" by simp
      then have "base * ?S \<le> (?n - 1) * ?S" using Spos by (simp add: mult_right_mono)
      with a show ?thesis by simp
    qed
    from Suc.prems(5) show "numBytes h < ?end"
    proof
      assume "?c = 0 \<and> numBytes h = base * ?S \<and> numBytes h < fileSize"
      moreover have "0 < ?I * ?S" using Spos Ipos by simp
      ultimately show ?thesis by simp
    next
      assume a: "1 \<le> ?c \<and> numBytes h = (?n - 1) * ?S \<and> numBytes h < fileSize"
      from Suc.prems(3,4) have "?n - 1 < base + ?I" by simp
      then have "(?n - 1) * ?S < (base + ?I) * ?S" using Spos by (simp add: mult_less_cancel_right)
      with a endeq show ?thesis by simp
    qed
  qed
  obtain sec fm1 where fs: "FindAndSet fm = (sec, fm1)" by (cases "FindAndSet fm")
  obtain ss where ss: "draw_n k fm1 = (ss, fm')" and xs: "xs = sec # ss"
    using Suc.prems(7) fs by (cases "draw_n k fm1") simp
  let ?ds = "(ind_dataSectors ind)[nat ?c := sec]"
  let ?h2 = "h\<lparr>numBytes := ?n * ?S, numSectors := ?n + 1\<rparr>"
  let ?ind2 = "ind\<lparr>ind_dataSectors := ?ds, ind_numSectors := ?c + 1\<rparr>"
  have as: "arr_set (ind_dataSectors ind) ?c sec = Inr ?ds"
    using Suc.prems(1,2) clt by (simp add: arr_set_def)
  have step: "AllocateIndirectSpace_loop P fileSize ?start ?end h ind fm =
              AllocateIndirectSpace_loop P fileSize ?start ?end ?h2 ?ind2 fm1"
    using big lo hi clt fs as
    by (subst AllocateIndirectSpace_loop.simps) (simp add: Let_def)
  have IH: "AllocateIndirectSpace_loop P fileSize ?start ?end ?h2 ?ind2 fm1 =
     Some (Inr (?h2\<lparr>numBytes := min fileSize ((base + ?I) * ?S),
                  numSectors := numSectors ?h2 + int k\<rparr>,
                ?ind2\<lparr>ind_dataSectors :=
                      write_at (ind_dataSectors ?ind2) (nat (ind_numSectors ?ind2)) ss,
                    ind_numSectors := ind_numSectors ?ind2 + int k\<rparr>,
                fm'))"
  proof (rule Suc.IH[OF _ _ _ _ _ _ ss])
    show "length (ind_dataSectors ?ind2) = NumIndirect P" using Suc.prems(1) by simp
    show "0 \<le> ind_numSectors ?ind2" using Suc.prems(2) by simp
    show "ind_numSectors ?ind2 \<le> ?I" using clt by simp
    show "numSectors ?h2 = base + ind_numSectors ?ind2" using Suc.prems(4) by simp
    show "ind_numSectors ?ind2 = 0 \<and> numBytes ?h2 = base * ?S \<and> numBytes ?h2 < fileSize \<or>
          1 \<le> ind_numSectors ?ind2 \<and> numBytes ?h2 = (numSectors ?h2 - 1) * ?S \<and>
          numBytes ?h2 < fileSize"
      using Suc.prems(2) big by simp
    show "k = nat (min (base + ?I) (divRoundUp fileSize ?S) - numSectors ?h2)"
      using Suc.prems(6) by simp
  qed
  have w: "write_at ?ds (nat (?c + 1)) ss = write_at (ind_dataSectors ind) (nat ?c) xs"
  proof -
    have "nat (?c + 1) = Suc (nat ?c)" using Suc.prems(2) by simp
    moreover have "nat ?c < length (ind_dataSectors ind)" using Suc.prems(1,2) clt by simp
    ultimately show ?thesis using xs by (simp add: write_at_Cons)
  qed
  from step IH w show ?case by simp
qed

lemma AllocateDirectBlocks_in_bounds:
  "length (dataSectors h) = NumDirect P \<Longrightarrow> 0 \<le> numSectors h \<Longrightarrow>
   \<exists>h' fm'. AllocateDirectBlocks P fileSize h fm = Inr (h', fm') \<and>
     length (dataSectors h') = NumDirect P \<and> 0 \<le> numSectors h'"
proof (induction P fileSize h fm rule: AllocateDirectBlocks.induct)
  case (1 P fileSize h fm)
  note u = AllocateDirectBlocks.simps[of P fileSize h fm]
  let ?S = "int (SectorSize P)" and ?D = "int (NumDirect P)"
  show ?case
  proof (cases "numBytes h \<ge> 0 \<and> numBytes h < ?D * ?S")
    case False
    then have "AllocateDirectBlocks P fileSize h fm = Inr (h, fm)"
      by (subst u) (rule if_not_P)
    with "1.prems" show ?thesis by simp
  next
    case c: True
    show ?thesis
    proof (cases "fileSize \<le> numSectors h * ?S")
      case True
      with c "1.prems" show ?thesis by (simp add: u)
    next
      case f: False
      let ?h1 = "h\<lparr>numBytes := numSectors h * ?S\<rparr>"
      show ?thesis
      proof (cases "numSectors ?h1 < ?D")
        case False
        from "1.IH"(2)[OF c f refl False] "1.prems"
        obtain h' fm' where "AllocateDirectBlocks P fileSize ?h1 fm = Inr (h', fm')"
          "length (dataSectors h') = NumDirect P" "0 \<le> numSectors h'"
          by auto
        with c f False show ?thesis by (simp add: u Let_def)
      next
        case True
        obtain sec fm1 where fs: "FindAndSet fm = (sec, fm1)" by (cases "FindAndSet fm")
        let ?ds = "(dataSectors h)[nat (numSectors h) := sec]"
        have as: "arr_set (dataSectors ?h1) (numSectors ?h1) sec = Inr ?ds"
          using "1.prems" True by (simp add: arr_set_def)
        let ?h2 = "?h1\<lparr>dataSectors := ?ds, numSectors := numSectors ?h1 + 1\<rparr>"
        from "1.IH"(1)[OF c f refl True refl fs[symmetric] as] "1.prems"
        obtain h' fm' where "AllocateDirectBlocks P fileSize ?h2 fm1 = Inr (h', fm')"
          "length (dataSectors h') = NumDirect P" "0 \<le> numSectors h'"
          by auto
        with c f True fs as show ?thesis by (simp add: u Let_def)
      qed
    qed
  qed
qed

lemma AllocateIndirectSpace_loop_in_bounds:
  assumes "AllocateIndirectSpace_loop P fileSize start end h ind fm = Some y"
    and "length (ind_dataSectors ind) = NumIndirect P" and "0 \<le> ind_numSectors ind"
  shows "\<exists>r. y = Inr r"
proof -
  define Q :: "((((((params \<times> int) \<times> int) \<times> int) \<times> FileHeader) \<times> Indirect) \<times> bitmap)
      \<Rightarrow> (fault + (FileHeader \<times> Indirect \<times> bitmap)) \<Rightarrow> bool"
    where "Q = (\<lambda>x y. case x of ((((((P, fileSize), start), end), h), ind), fm) \<Rightarrow>
      length (ind_dataSectors ind) = NumIndirect P \<longrightarrow> 0 \<le> ind_numSectors ind \<longrightarrow>
      (\<exists>r. y = Inr r))"
  have "Q ((((((P, fileSize), start), end), h), ind), fm) y"
  proof (rule AllocateIndirectSpace_loop.raw_induct[OF _ assms(1)])
    fix f :: "params \<Rightarrow> int \<Rightarrow> int \<Rightarrow> int \<Rightarrow> FileHeader \<Rightarrow> Indirect \<Rightarrow> bitmap
        \<Rightarrow> (fault + (FileHeader \<times> Indirect \<times> bitmap)) option"
    fix P fileSize start "end" h ind fm y
    assume IH: "\<And>P fileSize start end h ind fm y.
        f P fileSize start end h ind fm = Some y \<Longrightarrow>
        Q ((((((P, fileSize), start), end), h), ind), fm) y"
    assume eq: "(if start \<le> numBytes h \<and> numBytes h < end
      then if fileSize \<le> numSectors h * int (SectorSize P)
           then Some (Inr (h\<lparr>numBytes := fileSize\<rparr>, ind, fm))
           else let h1 = h\<lparr>numBytes := numSectors h * int (SectorSize P)\<rparr>
                in if ind_numSectors ind < int (NumIndirect P)
                   then let (sec, freeMap1) = FindAndSet fm
                        in case arr_set (ind_dataSectors ind) (ind_numSectors ind) sec of
                           Inl e \<Rightarrow> Some (Inl e)
                           | Inr ds \<Rightarrow>
                               f P fileSize start end (h1\<lparr>numSectors := numSectors h1 + 1\<rparr>)
                                (ind\<lparr>ind_dataSectors := ds,
                                    ind_numSectors := ind_numSectors ind + 1\<rparr>)
                                freeMap1
                   else f P fileSize start end h1 ind fm
      else Some (Inr (h, ind, fm))) = Some y"
    show "Q ((((((P, fileSize), start), end), h), ind), fm) y"
      unfolding Q_def
    proof (clarify)
      assume len: "length (ind_dataSectors ind) = NumIndirect P" and c: "0 \<le> ind_numSectors ind"
      show "\<exists>r. y = Inr r"
      proof (cases "start \<le> numBytes h \<and> numBytes h < end")
        case False
        with eq show ?thesis by auto
      next
        case c1: True
        show ?thesis
        proof (cases "fileSize \<le> numSectors h * int (SectorSize P)")
          case True
          with c1 eq show ?thesis by auto
        next
          case c2: False
          show ?thesis
          proof (cases "ind_numSectors ind < int (NumIndirect P)")
            case False
            with c1 c2 eq have "f P fileSize start end
                (h\<lparr>numBytes := numSectors h * int (SectorSize P)\<rparr>) ind fm = Some y"
              by (simp add: Let_def)
            from IH[OF this] len c show ?thesis by (simp add: Q_def)
          next
            case True
            obtain sec fm1 where fs: "FindAndSet fm = (sec, fm1)" by (cases "FindAndSet fm")
            have as: "arr_set (ind_dataSectors ind) (ind_numSectors ind) sec =
                Inr ((ind_dataSectors ind)[nat (ind_numSectors ind) := sec])"
              using len c True by (simp add: arr_set_def)
            from c1 c2 True eq fs as have "f P fileSize start end
                (h\<lparr>numBytes := numSectors h * int (SectorSize P),
                   numSectors := numSectors h + 1\<rparr>)
                (ind\<lparr>ind_dataSectors := (ind_dataSectors ind)[nat (ind_numSectors ind) := sec],
                     ind_numSectors := ind_numSectors ind + 1\<rparr>) fm1 = Some y"
              by (simp add: Let_def)
            from IH[OF this] len c show ?thesis by (simp add: Q_def)
          qed
        qed
      qed
    qed
  qed
  with assms(2,3) show ?thesis by (simp add: Q_def)
qed

lemma read_into_take_self: "read_into obj (take k obj) = obj"
proof -
  have "take (length obj) (take k obj) = take k obj" by (simp add: min_def)
  moreover have "drop (length (take k obj)) obj = drop k obj"
    by (cases "k \<le> length obj") (simp_all add: min_def)
  ultimately show ?thesis by (simp add: read_into_def)
qed

lemma Indirect_of_words_new:
  "Indirect_of_words P (take k (words_of_Indirect (Indirect_new P))) = Indirect_new P"
  by (simp add: Indirect_of_words_def read_into_take_self) (simp add: words_of_Indirect_def)

lemma AllocateDirectBlocks_index_sectors:
  "AllocateDirectBlocks P fileSize h fm = Inr (h', fm') \<Longrightarrow>
   singleIndirectSector h' = singleIndirectSector h \<and>
   doubleIndirectSector h' = doubleIndirectSector h \<and> headerSector h' = headerSector h"
proof (induction P fileSize h fm rule: AllocateDirectBlocks.induct)
  case (1 P fileSize h fm)
  note u = AllocateDirectBlocks.simps[of P fileSize h fm]
  let ?S = "int (SectorSize P)" and ?D = "int (NumDirect P)"
  show ?case
  proof (cases "numBytes h \<ge> 0 \<and> numBytes h < ?D * ?S")
    case False
    then have "AllocateDirectBlocks P fileSize h fm = Inr (h, fm)"
      by (subst u) (rule if_not_P)
    with "1.prems" show ?thesis by simp
  next
    case c: True
    show ?thesis
    proof (cases "fileSize \<le> numSectors h * ?S")
      case True
      with c "1.prems" show ?thesis by (auto simp: u)
    next
      case f: False
      let ?h1 = "h\<lparr>numBytes := numSectors h * ?S\<rparr>"
      show ?thesis
      proof (cases "numSectors ?h1 < ?D")
        case False
        with c f "1.prems" have "AllocateDirectBlocks P fileSize ?h1 fm = Inr (h', fm')"
          by (simp add: u Let_def)
        from "1.IH"(2)[OF c f refl False this] show ?thesis by simp
      next
        case True
        obtain sec fm1 where fs: "FindAndSet fm = (sec, fm1)" by (cases "FindAndSet fm")
        show ?thesis
        proof (cases "arr_set (dataSectors ?h1) (numSectors ?h1) sec")
          case (Inl e)
          with c f True fs "1.prems" show ?thesis by (simp add: u Let_def)
        next
          case (Inr ds)
          with c f True fs "1.prems" have "AllocateDirectBlocks P fileSize
              (?h1\<lparr>dataSectors := ds, numSectors := numSectors ?h1 + 1\<rparr>) fm1 = Inr (h', fm')"
            by (simp add: u Let_def)
          from "1.IH"(1)[OF c f refl True refl fs[symmetric] Inr this] show ?thesis by simp
        qed
      qed
    qed
  qed
qed

lemma AllocateIndirectSpace_in_bounds:
  assumes "ReadSector d sector = Inr ws" and "0 \<le> ind_numSectors (Indirect_of_words P ws)"
  shows "AllocateIndirectSpace P fileSize sector start h fm d \<noteq> Some (Inl OutOfBounds)"
proof
  assume a: "AllocateIndirectSpace P fileSize sector start h fm d = Some (Inl OutOfBounds)"
  let ?end = "start + int (NumIndirect P) * int (SectorSize P)"
  let ?l = "AllocateIndirectSpace_loop P fileSize start ?end h (Indirect_of_words P ws) fm"
  show False
  proof (cases ?l)
    case None
    with a assms(1) show False by (simp add: AllocateIndirectSpace_def)
  next
    case (Some y)
    from AllocateIndirectSpace_loop_in_bounds[OF Some _ assms(2)]
    obtain r where "y = Inr r" by auto
    with Some a assms(1) show False
      by (auto simp: AllocateIndirectSpace_def WriteSector_def split: prod.splits if_splits)
  qed
qed

text \<open>
  Claim C8: in the direct phase every write to \<open>dataSectors\<close> is inside the array, for
  every header whose \<open>numSectors\<close> is not negative, the zeroed header among them: the
  phase ends without a fault. The fill of an indirect block whose count is not negative
  never leaves the array of the block; in \<open>Allocate\<close> on a zeroed header the
  single-indirect block is the one just created, so the single-indirect phase never
  does.
\<close>

theorem Allocate_phases_in_bounds:
  "(length (dataSectors h) = NumDirect P \<and> 0 \<le> numSectors h \<longrightarrow>
      (\<exists>r. AllocateDirectBlocks P fileSize h fm = Inr r)) \<and>
   (ReadSector db sector = Inr ws \<and> 0 \<le> ind_numSectors (Indirect_of_words P ws) \<longrightarrow>
      AllocateIndirectSpace P fileSize sector start hb fmb db \<noteq> Some (Inl OutOfBounds)) \<and>
   (\<exists>r. AllocateDirectBlocks P fileSize (FileHeader_new P) fmz = Inr r) \<and>
   (AllocateDirectBlocks P fileSize (FileHeader_new P) fmz = Inr (hdir, fmdir) \<and>
    CreateSingleIndirectBlock P hdir fmdir d = Inr (hsing, fmsing, dsing) \<longrightarrow>
      AllocateIndirectSpace P fileSize (singleIndirectSector hsing)
        (int (NumDirect P) * int (SectorSize P)) hsing fmsing dsing \<noteq> Some (Inl OutOfBounds))"
proof -
  have 1: "\<exists>r. AllocateDirectBlocks P fileSize h fm = Inr r"
    if "length (dataSectors h) = NumDirect P \<and> 0 \<le> numSectors h" for h fm
    using AllocateDirectBlocks_in_bounds[of h P fileSize fm] that by auto
  have 2: "AllocateIndirectSpace P fileSize sector start hb fmb db \<noteq> Some (Inl OutOfBounds)"
    if "ReadSector db sector = Inr ws \<and> 0 \<le> ind_numSectors (Indirect_of_words P ws)"
    using that AllocateIndirectSpace_in_bounds by blast
  have 3: "\<exists>r. AllocateDirectBlocks P fileSize (FileHeader_new P) fmz = Inr r"
    by (rule 1) (simp add: FileHeader_new_def)
  have 4: "AllocateIndirectSpace P fileSize (singleIndirectSector hsing)
        (int (NumDirect P) * int (SectorSize P)) hsing fmsing dsing \<noteq> Some (Inl OutOfBounds)"
    if a: "AllocateDirectBlocks P fileSize (FileHeader_new P) fmz = Inr (hdir, fmdir) \<and>
        CreateSingleIndirectBlock P hdir fmdir d = Inr (hsing, fmsing, dsing)"
  proof -
    from a AllocateDirectBlocks_index_sectors[of P fileSize "FileHeader_new P" fmz hdir fmdir]
    have s: "singleIndirectSector hdir = - 1" by (simp add: FileHeader_new_def)
    obtain sec fm' where fs: "FindAndSet fmdir = (sec, fm')" by (cases "FindAndSet fmdir")
    from a s fs have hsing: "singleIndirectSector hsing = sec"
      and w: "WriteSector P d sec (words_of_Indirect (Indirect_new P)) = Inr dsing"
      by (auto simp: CreateSingleIndirectBlock_def Let_def split: sum.splits)
    from w have r: "ReadSector dsing sec =
        Inr (take (SectorSize P div 4) (words_of_Indirect (Indirect_new P)))"
      by (auto simp: WriteSector_def ReadSector_def split: if_splits)
    have "0 \<le> ind_numSectors (Indirect_of_words P
        (take (SectorSize P div 4) (words_of_Indirect (Indirect_new P))))"
      by (simp add: Indirect_of_words_new) (simp add: Indirect_new_def)
    with r hsing show ?thesis by (intro AllocateIndirectSpace_in_bounds) simp_all
  qed
  from 1 2 3 4 show ?thesis by blast
qed

theorem Allocate_phases_in_bounds_witness:
  "length (dataSectors (FileHeader_new params_ex)) = NumDirect params_ex \<and>
   0 \<le> numSectors (FileHeader_new params_ex) \<and>
   AllocateDirectBlocks params_ex 128 (FileHeader_new params_ex) (replicate 6 False) =
     Inr (\<lparr>numBytes = 96, numSectors = 3, dataSectors = [0, 1, 2],
           singleIndirectSector = - 1, doubleIndirectSector = - 1, headerSector = - 1\<rparr>,
          [True, True, True, False, False, False]) \<and>
   CreateSingleIndirectBlock params_ex
       \<lparr>numBytes = 96, numSectors = 3, dataSectors = [0, 1, 2],
        singleIndirectSector = - 1, doubleIndirectSector = - 1, headerSector = - 1\<rparr>
       [True, True, True, False, False, False] (blank_disk 6) =
     Inr (\<lparr>numBytes = 96, numSectors = 3, dataSectors = [0, 1, 2],
           singleIndirectSector = 3, doubleIndirectSector = - 1, headerSector = - 1\<rparr>,
          [True, True, True, True, False, False],
          (blank_disk 6)[3 := [0, - 1, - 1, - 1, - 1, - 1, - 1, - 1]]) \<and>
   ReadSector ((blank_disk 6)[3 := [0, - 1, - 1, - 1, - 1, - 1, - 1, - 1]]) 3 =
     Inr [0, - 1, - 1, - 1, - 1, - 1, - 1, - 1] \<and>
   0 \<le> ind_numSectors (Indirect_of_words params_ex [0, - 1, - 1, - 1, - 1, - 1, - 1, - 1]) \<and>
   AllocateIndirectSpace params_ex 128 3 (int (NumDirect params_ex) * int (SectorSize params_ex))
       \<lparr>numBytes = 96, numSectors = 3, dataSectors = [0, 1, 2],
        singleIndirectSector = 3, doubleIndirectSector = - 1, headerSector = - 1\<rparr>
       [True, True, True, True, False, False]
       ((blank_disk 6)[3 := [0, - 1, - 1, - 1, - 1, - 1, - 1, - 1]]) \<noteq> Some (Inl OutOfBounds)"
proof -
  let ?h1 = "\<lparr>numBytes = 96, numSectors = 3, dataSectors = [0, 1, 2],
        singleIndirectSector = - 1, doubleIndirectSector = - 1, headerSector = - 1\<rparr>"
  let ?h2 = "\<lparr>numBytes = 96, numSectors = 3, dataSectors = [0, 1, 2],
        singleIndirectSector = 3, doubleIndirectSector = - 1, headerSector = - 1\<rparr>"
  let ?d2 = "(blank_disk 6)[3 := [0, - 1, - 1, - 1, - 1, - 1, - 1, - 1]]"
  have a: "length (dataSectors (FileHeader_new params_ex)) = NumDirect params_ex"
    "0 \<le> numSectors (FileHeader_new params_ex)"
    by (simp_all add: FileHeader_new_def)
  have b: "AllocateDirectBlocks params_ex 128 (FileHeader_new params_ex) (replicate 6 False) =
     Inr (?h1, [True, True, True, False, False, False])"
    by code_simp
  have c: "CreateSingleIndirectBlock params_ex ?h1 [True, True, True, False, False, False]
      (blank_disk 6) = Inr (?h2, [True, True, True, True, False, False], ?d2)"
    by code_simp
  have r: "ReadSector ?d2 3 = Inr [0, - 1, - 1, - 1, - 1, - 1, - 1, - 1]"
    by code_simp
  have i: "0 \<le> ind_numSectors (Indirect_of_words params_ex [0, - 1, - 1, - 1, - 1, - 1, - 1, - 1])"
    by code_simp
  have s: "singleIndirectSector ?h2 = 3" by simp
  from Allocate_phases_in_bounds[where h = "FileHeader_new params_ex" and P = params_ex
      and fileSize = 128 and fm = "replicate 6 False" and fmz = "replicate 6 False"
      and db = ?d2 and sector = 3 and ws = "[0, - 1, - 1, - 1, - 1, - 1, - 1, - 1]"
      and start = "int (NumDirect params_ex) * int (SectorSize params_ex)"
      and hb = ?h2 and fmb = "[True, True, True, True, False, False]"
      and hdir = ?h1 and fmdir = "[True, True, True, False, False, False]" and d = "blank_disk 6"
      and hsing = ?h2 and fmsing = "[True, True, True, True, False, False]" and dsing = ?d2]
    a b c r i
  show ?thesis by simp
qed

subsection \<open>Allocation: translation after each phase\<close>

lemma params_ok_pos:
  assumes "params_ok P"
  shows "0 < SectorSize P" "0 < NumDirect P" "0 < NumIndirect P"
    "NumIndirect P < SectorSize P div 4"
  using assms by (auto simp: params_ok_def intro: Suc_le_lessD gr0I)

lemma GetPhysicSector_direct:
  "0 \<le> i \<Longrightarrow> i < int (NumDirect P) \<Longrightarrow> length (dataSectors h) = NumDirect P \<Longrightarrow>
   GetPhysicSector P h d i = Inr (dataSectors h ! nat i)"
  by (simp add: GetPhysicSector_def arr_get_def)

lemma GetPhysicSector_single:
  assumes "int (NumDirect P) \<le> i" "i < int (NumDirect P) + int (NumIndirect P)"
    and "0 \<le> singleIndirectSector h" "singleIndirectSector h < int (length d)"
  shows "GetPhysicSector P h d i =
     Inr (ind_dataSectors (Indirect_of_words P (d ! nat (singleIndirectSector h))) !
            nat (i - int (NumDirect P)))"
  using assms by (simp add: GetPhysicSector_def arr_get_def ReadSector_def)

lemma GetPhysicSector_double:
  assumes "int (NumDirect P) + int (NumIndirect P) \<le> i"
    and "(i - (int (NumDirect P) + int (NumIndirect P))) div int (NumIndirect P) < int (NumIndirect P)"
    and "0 < NumIndirect P"
    and "0 \<le> doubleIndirectSector h" "doubleIndirectSector h < int (length d)"
    and "sec = ind_dataSectors (Indirect_of_words P (d ! nat (doubleIndirectSector h))) !
            nat ((i - (int (NumDirect P) + int (NumIndirect P))) div int (NumIndirect P))"
    and "0 \<le> sec" "sec < int (length d)"
  shows "GetPhysicSector P h d i =
     Inr (ind_dataSectors (Indirect_of_words P (d ! nat sec)) !
            nat ((i - (int (NumDirect P) + int (NumIndirect P))) mod int (NumIndirect P)))"
proof -
  let ?q = "(i - (int (NumDirect P) + int (NumIndirect P))) div int (NumIndirect P)"
  let ?r = "(i - (int (NumDirect P) + int (NumIndirect P))) mod int (NumIndirect P)"
  have q: "0 \<le> ?q" using assms(1,3) by (simp add: pos_imp_zdiv_nonneg_iff)
  have r: "0 \<le> ?r" "?r < int (NumIndirect P)" using assms(3) by simp_all
  have n: "\<not> i < int (NumDirect P)" "\<not> i < int (NumDirect P) + int (NumIndirect P)"
    using assms(1) by simp_all
  show ?thesis
    unfolding GetPhysicSector_def
    using n q r assms(2,4,5,7,8) assms(6)[symmetric]
    by (simp add: arr_get_def ReadSector_def Let_def)
qed

lemma translates_extend:
  assumes t: "translates P h fm d"
    and n0: "0 \<le> numSectors h"
    and n: "numSectors h' = numSectors h + int (length xs)"
    and frame: "\<And>i. 0 \<le> i \<Longrightarrow> i < numSectors h \<Longrightarrow>
        GetPhysicSector P h' d' i = GetPhysicSector P h d i"
    and new: "\<And>i. numSectors h \<le> i \<Longrightarrow> i < numSectors h' \<Longrightarrow>
        GetPhysicSector P h' d' i = Inr (xs ! nat (i - numSectors h))"
    and dist: "distinct xs" and fresh: "set xs \<inter> marked fm = {}"
    and sub: "marked fm \<union> set xs \<subseteq> marked fm'"
  shows "translates P h' fm' d'"
proof -
  have old: "\<exists>s. GetPhysicSector P h' d' i = Inr s \<and> s \<in> marked fm"
    if "0 \<le> i" "i < numSectors h" for i
    using t that frame[OF that] by (auto simp: translates_def)
  have nw: "GetPhysicSector P h' d' i = Inr (xs ! nat (i - numSectors h)) \<and>
      nat (i - numSectors h) < length xs"
    if "numSectors h \<le> i" "i < numSectors h'" for i
    using new[OF that] that n by auto
  have 1: "\<exists>s. GetPhysicSector P h' d' i = Inr s \<and> s \<in> marked fm'"
    if i: "0 \<le> i" "i < numSectors h'" for i
  proof (cases "i < numSectors h")
    case True
    from old[OF i(1) True] sub show ?thesis by auto
  next
    case False
    then have "numSectors h \<le> i" by simp
    from nw[OF this i(2)] sub show ?thesis by (auto simp: subset_iff)
  qed
  have 2: "GetPhysicSector P h' d' i \<noteq> GetPhysicSector P h' d' j"
    if ij: "0 \<le> i" "i < j" "j < numSectors h'" for i j
  proof (cases "j < numSectors h")
    case True
    with ij have "i < numSectors h" by simp
    with t ij True frame[OF ij(1) this] frame[of j] show ?thesis
      by (auto simp: translates_def)
  next
    case jn: False
    then have jl: "numSectors h \<le> j" by simp
    note J = nw[OF jl ij(3)]
    show ?thesis
    proof (cases "i < numSectors h")
      case True
      from old[OF ij(1) True] obtain s where s: "GetPhysicSector P h' d' i = Inr s"
        "s \<in> marked fm" by blast
      from J have "xs ! nat (j - numSectors h) \<in> set xs" by simp
      with fresh s(2) have "s \<noteq> xs ! nat (j - numSectors h)" by auto
      with s(1) J show ?thesis by simp
    next
      case False
      then have il: "numSectors h \<le> i" by simp
      from ij have "i < numSectors h'" by simp
      note I = nw[OF il this]
      from il jl ij(2) have "nat (i - numSectors h) \<noteq> nat (j - numSectors h)" by simp
      with dist I J have "xs ! nat (i - numSectors h) \<noteq> xs ! nat (j - numSectors h)"
        by (simp add: nth_eq_iff_index_eq)
      with I J show ?thesis by simp
    qed
  qed
  from 1 2 show ?thesis unfolding translates_def by blast
qed

lemma AllocateIndirectSpace_fresh:
  assumes ok: "params_ok P"
    and sec: "0 \<le> sec" "sec < int (length d)"
      "Indirect_of_words P (d ! nat sec) = Indirect_new P"
    and h: "numSectors h = base" "0 \<le> base" "numBytes h = base * int (SectorSize P)"
      "numBytes h < fileSize"
    and k: "k = nat (min (base + int (NumIndirect P)) (divRoundUp fileSize (int (SectorSize P)))
                     - base)"
    and dr: "draw_n k fm = (xs, fm')"
  shows "AllocateIndirectSpace P fileSize sec (base * int (SectorSize P)) h fm d =
     Some (Inr (fileSize - min fileSize ((base + int (NumIndirect P)) * int (SectorSize P)),
                h\<lparr>numBytes := min fileSize ((base + int (NumIndirect P)) * int (SectorSize P)),
                  numSectors := base + int k\<rparr>,
                fm',
                d[nat sec := take (SectorSize P div 4)
                    (words_of_Indirect \<lparr>ind_numSectors = int k,
                       ind_dataSectors = write_at (replicate (NumIndirect P) (- 1)) 0 xs\<rparr>)]))"
proof -
  note p = params_ok_pos[OF ok]
  let ?ind = "Indirect_new P"
  have l: "AllocateIndirectSpace_loop P fileSize (base * int (SectorSize P))
           (base * int (SectorSize P) + int (NumIndirect P) * int (SectorSize P)) h ?ind fm =
     Some (Inr (h\<lparr>numBytes := min fileSize ((base + int (NumIndirect P)) * int (SectorSize P)),
                  numSectors := numSectors h + int k\<rparr>,
                ?ind\<lparr>ind_dataSectors :=
                      write_at (ind_dataSectors ?ind) (nat (ind_numSectors ?ind)) xs,
                    ind_numSectors := ind_numSectors ?ind + int k\<rparr>,
                fm'))"
  proof (rule AllocateIndirectSpace_loop_closed[OF p(1) p(3) _ _ _ h(2) _ _ _ dr])
    show "length (ind_dataSectors ?ind) = NumIndirect P" by (simp add: Indirect_new_def)
    show "0 \<le> ind_numSectors ?ind" by (simp add: Indirect_new_def)
    show "ind_numSectors ?ind \<le> int (NumIndirect P)" by (simp add: Indirect_new_def)
    show "numSectors h = base + ind_numSectors ?ind" using h(1) by (simp add: Indirect_new_def)
    show "ind_numSectors ?ind = 0 \<and> numBytes h = base * int (SectorSize P) \<and>
            numBytes h < fileSize \<or>
          1 \<le> ind_numSectors ?ind \<and> numBytes h = (numSectors h - 1) * int (SectorSize P) \<and>
            numBytes h < fileSize"
      using h(3,4) by (simp add: Indirect_new_def)
    show "k = nat (min (base + int (NumIndirect P)) (divRoundUp fileSize (int (SectorSize P)))
                     - numSectors h)"
      using k h(1) by simp
  qed
  have i: "?ind\<lparr>ind_dataSectors :=
                      write_at (ind_dataSectors ?ind) (nat (ind_numSectors ?ind)) xs,
                    ind_numSectors := ind_numSectors ?ind + int k\<rparr> =
           \<lparr>ind_numSectors = int k,
            ind_dataSectors = write_at (replicate (NumIndirect P) (- 1)) 0 xs\<rparr>"
    by (simp add: Indirect_new_def)
  show ?thesis
    unfolding AllocateIndirectSpace_def Let_def
    using sec l[unfolded i] h(1)
    by (simp add: ReadSector_def WriteSector_def)
qed

lemma translates_empty: "numSectors h \<le> 0 \<Longrightarrow> translates P h fm d"
  by (auto simp: translates_def)

lemma Allocate_direct_phase:
  assumes ok: "params_ok P"
    and k: "k = nat (min (int (NumDirect P)) (divRoundUp fileSize (int (SectorSize P))))"
    and free: "int k \<le> NumClear fm"
  shows "\<exists>h1 fm1. AllocateDirectBlocks P fileSize (FileHeader_new P) fm = Inr (h1, fm1) \<and>
     numBytes h1 = min fileSize (int (NumDirect P) * int (SectorSize P)) \<and>
     numSectors h1 = int k \<and> length (dataSectors h1) = NumDirect P \<and>
     singleIndirectSector h1 = - 1 \<and> doubleIndirectSector h1 = - 1 \<and>
     translates P h1 fm1 d \<and> marked fm \<subseteq> marked fm1 \<and> length fm1 = length fm \<and>
     NumClear fm1 = NumClear fm - int k"
proof -
  note p = params_ok_pos[OF ok]
  let ?h0 = "FileHeader_new P"
  obtain xs fm1 where dr: "draw_n k fm = (xs, fm1)" by (cases "draw_n k fm")
  note dl = draw_n_length[OF dr] and df = draw_n_fresh[OF free dr]
  from k have kD: "k \<le> NumDirect P" by simp
  let ?h1 = "?h0\<lparr>numBytes := min fileSize (int (NumDirect P) * int (SectorSize P)),
            numSectors := numSectors ?h0 + int k,
            dataSectors := write_at (dataSectors ?h0) (nat (numSectors ?h0)) xs\<rparr>"
  have run: "AllocateDirectBlocks P fileSize ?h0 fm = Inr (?h1, fm1)"
  proof (rule AllocateDirectBlocks_closed[OF p(1) p(2) _ _ _ _ _ dr])
    show "length (dataSectors ?h0) = NumDirect P" by (simp add: FileHeader_new_def)
    show "0 \<le> numSectors ?h0" "numSectors ?h0 \<le> int (NumDirect P)"
      by (simp_all add: FileHeader_new_def)
    show "numSectors ?h0 = 0 \<and> numBytes ?h0 = 0 \<or>
          1 \<le> numSectors ?h0 \<and> numBytes ?h0 = (numSectors ?h0 - 1) * int (SectorSize P) \<and>
          numBytes ?h0 < fileSize"
      by (simp add: FileHeader_new_def)
    show "k = nat (min (int (NumDirect P)) (divRoundUp fileSize (int (SectorSize P)))
                   - numSectors ?h0)"
      using k by (simp add: FileHeader_new_def)
  qed
  have f: "numSectors ?h1 = int k" "length (dataSectors ?h1) = NumDirect P"
    "dataSectors ?h1 = write_at (replicate (NumDirect P) (- 1)) 0 xs"
    "singleIndirectSector ?h1 = - 1" "doubleIndirectSector ?h1 = - 1"
    "numBytes ?h1 = min fileSize (int (NumDirect P) * int (SectorSize P))"
    using dl kD by (simp_all add: FileHeader_new_def)
  have tr: "translates P ?h1 fm1 d"
  proof (rule translates_extend[where h = ?h0 and fm = fm and d = d and xs = xs])
    show "translates P ?h0 fm d" by (rule translates_empty) (simp add: FileHeader_new_def)
    show "0 \<le> numSectors ?h0" by (simp add: FileHeader_new_def)
    show "numSectors ?h1 = numSectors ?h0 + int (length xs)" using dl by simp
    show "GetPhysicSector P ?h1 d i = GetPhysicSector P ?h0 d i"
      if "0 \<le> i" "i < numSectors ?h0" for i
      using that by (simp add: FileHeader_new_def)
    show "GetPhysicSector P ?h1 d i = Inr (xs ! nat (i - numSectors ?h0))"
      if i: "numSectors ?h0 \<le> i" "i < numSectors ?h1" for i
    proof -
      from i f(1) have r: "0 \<le> i" "i < int k" by (simp_all add: FileHeader_new_def)
      with kD have "i < int (NumDirect P)" by simp
      from GetPhysicSector_direct[OF r(1) this f(2)]
      have "GetPhysicSector P ?h1 d i = Inr (dataSectors ?h1 ! nat i)" .
      moreover from r have ni: "nat i < k" by linarith
      have "dataSectors ?h1 ! nat i = xs ! nat i"
        unfolding f(3) using ni dl kD by (subst nth_write_at) simp_all
      ultimately show ?thesis by (simp add: FileHeader_new_def)
    qed
    show "distinct xs" "set xs \<inter> marked fm = {}" using df by simp_all
    show "marked fm \<union> set xs \<subseteq> marked fm1" using df by simp
  qed
  from df have "marked fm \<subseteq> marked fm1" "NumClear fm1 = NumClear fm - int k" by auto
  with run f tr dl show ?thesis by blast
qed

lemma Indirect_of_words_of_full:
  assumes "length (ind_dataSectors b) = NumIndirect P"
  shows "Indirect_of_words P (words_of_Indirect b) = b"
  using Indirect_of_words_of[OF assms, of "Suc (NumIndirect P)"] assms
  by simp

lemma Allocate_single_phase:
  assumes ok: "params_ok P"
    and big: "int (NumDirect P) * int (SectorSize P) < fileSize"
    and h1: "numBytes h1 = int (NumDirect P) * int (SectorSize P)"
      "numSectors h1 = int (NumDirect P)" "length (dataSectors h1) = NumDirect P"
      "singleIndirectSector h1 = - 1"
    and tr: "translates P h1 fm1 d"
    and k: "k = nat (min (int (NumDirect P) + int (NumIndirect P))
                       (divRoundUp fileSize (int (SectorSize P))) - int (NumDirect P))"
    and free: "1 + int k \<le> NumClear fm1"
    and disk: "length fm1 \<le> length d"
  shows "\<exists>hc fmc dc h2 fm2 d2.
     CreateSingleIndirectBlock P h1 fm1 d = Inr (hc, fmc, dc) \<and>
     AllocateIndirectSpace P fileSize (singleIndirectSector hc)
       (int (NumDirect P) * int (SectorSize P)) hc fmc dc =
       Some (Inr (fileSize - numBytes h2, h2, fm2, d2)) \<and>
     numBytes h2 = min fileSize ((int (NumDirect P) + int (NumIndirect P)) * int (SectorSize P)) \<and>
     numSectors h2 = int (NumDirect P) + int k \<and>
     dataSectors h2 = dataSectors h1 \<and> doubleIndirectSector h2 = doubleIndirectSector h1 \<and>
     0 \<le> singleIndirectSector h2 \<and> singleIndirectSector h2 < int (length d2) \<and>
     singleIndirectSector h2 \<in> marked fm2 \<and>
     translates P h2 fm2 d2 \<and> marked fm1 \<subseteq> marked fm2 \<and> length fm2 = length fm1 \<and>
     length d2 = length d \<and> NumClear fm2 = NumClear fm1 - 1 - int k"
proof -
  note p = params_ok_pos[OF ok]
  let ?S = "int (SectorSize P)" and ?D = "int (NumDirect P)" and ?I = "int (NumIndirect P)"
  obtain s1 fmc where fs: "FindAndSet fm1 = (s1, fmc)" by (cases "FindAndSet fm1")
  from free have pos: "0 < NumClear fm1" by simp
  note f = FindAndSet_free[OF pos fs]
  from f(1,2) disk have s1: "0 \<le> s1" "s1 < int (length d)" by simp_all
  let ?hc = "h1\<lparr>singleIndirectSector := s1\<rparr>"
  let ?dc = "d[nat s1 := take (SectorSize P div 4) (words_of_Indirect (Indirect_new P))]"
  have create: "CreateSingleIndirectBlock P h1 fm1 d = Inr (?hc, fmc, ?dc)"
    using h1(4) fs s1 by (simp add: CreateSingleIndirectBlock_def WriteSector_def)
  have fresh: "Indirect_of_words P (?dc ! nat s1) = Indirect_new P"
    using s1 by (simp add: Indirect_of_words_new)
  obtain xs fm2 where dr: "draw_n k fmc = (xs, fm2)" by (cases "draw_n k fmc")
  from free f(6) have free2: "int k \<le> NumClear fmc" by simp
  note dl = draw_n_length[OF dr] and df = draw_n_fresh[OF free2 dr]
  from k have kI: "k \<le> NumIndirect P" by simp
  let ?ind = "\<lparr>ind_numSectors = int k,
              ind_dataSectors = write_at (replicate (NumIndirect P) (- 1)) 0 xs\<rparr>"
  let ?h2 = "?hc\<lparr>numBytes := min fileSize ((?D + ?I) * ?S), numSectors := ?D + int k\<rparr>"
  let ?d2 = "?dc[nat s1 := take (SectorSize P div 4) (words_of_Indirect ?ind)]"
  have fill: "AllocateIndirectSpace P fileSize s1 (?D * ?S) ?hc fmc ?dc =
      Some (Inr (fileSize - min fileSize ((?D + ?I) * ?S), ?h2, fm2, ?d2))"
  proof (rule AllocateIndirectSpace_fresh[OF ok _ _ fresh _ _ _ _ _ dr])
    show "0 \<le> s1" "s1 < int (length ?dc)" using s1 by simp_all
    show "numSectors ?hc = ?D" using h1(2) by simp
    show "0 \<le> ?D" by simp
    show "numBytes ?hc = ?D * ?S" using h1(1) by simp
    show "numBytes ?hc < fileSize" using h1(1) big by simp
    show "k = nat (min (?D + ?I) (divRoundUp fileSize ?S) - ?D)" by (rule k)
  qed
  have lenw: "length (write_at (replicate (NumIndirect P) (- 1)) 0 xs) = NumIndirect P"
    using dl kI by simp
  have blk: "Indirect_of_words P (?d2 ! nat s1) = ?ind"
    using s1 p(4) lenw by (simp add: Indirect_of_words_of Indirect_of_words_of_full)
  have tr2: "translates P ?h2 fm2 ?d2"
  proof (rule translates_extend[where h = h1 and fm = fm1 and d = d and xs = xs])
    show "translates P h1 fm1 d" by (rule tr)
    show "0 \<le> numSectors h1" using h1(2) by simp
    show "numSectors ?h2 = numSectors h1 + int (length xs)" using h1(2) dl by simp
    show "GetPhysicSector P ?h2 ?d2 i = GetPhysicSector P h1 d i"
      if "0 \<le> i" "i < numSectors h1" for i
      using that h1(2,3) by (simp add: GetPhysicSector_direct)
    show "GetPhysicSector P ?h2 ?d2 i = Inr (xs ! nat (i - numSectors h1))"
      if i: "numSectors h1 \<le> i" "i < numSectors ?h2" for i
    proof -
      from i h1(2) have r: "?D \<le> i" "i < ?D + int k" by simp_all
      with kI have r2: "i < ?D + ?I" by simp
      have "GetPhysicSector P ?h2 ?d2 i =
          Inr (ind_dataSectors (Indirect_of_words P (?d2 ! nat (singleIndirectSector ?h2))) !
                 nat (i - ?D))"
        using s1 by (intro GetPhysicSector_single[OF r(1) r2]) simp_all
      moreover have "singleIndirectSector ?h2 = s1" by simp
      moreover from r have ni: "nat (i - ?D) < k" by linarith
      have "write_at (replicate (NumIndirect P) (- 1)) 0 xs ! nat (i - ?D) = xs ! nat (i - ?D)"
        using ni dl kI by (subst nth_write_at) simp_all
      ultimately show ?thesis using blk h1(2) by simp
    qed
    show "distinct xs" using df by simp
    show "set xs \<inter> marked fm1 = {}" using df f(4) by auto
    show "marked fm1 \<union> set xs \<subseteq> marked fm2" using df f(4) by auto
  qed
  have m: "marked fm1 \<subseteq> marked fm2" "s1 \<in> marked fm2" using df f(4) by auto
  have n: "NumClear fm2 = NumClear fm1 - 1 - int k" using df f(6) by simp
  have l: "length fm2 = length fm1" "length ?d2 = length d" using dl f(5) by simp_all
  have e: "numBytes ?h2 = min fileSize ((?D + ?I) * ?S)" "numSectors ?h2 = ?D + int k"
    "dataSectors ?h2 = dataSectors h1" "doubleIndirectSector ?h2 = doubleIndirectSector h1"
    "singleIndirectSector ?h2 = s1" "singleIndirectSector ?hc = s1"
    by simp_all
  from fill e(1,6) have fill': "AllocateIndirectSpace P fileSize (singleIndirectSector ?hc)
       (?D * ?S) ?hc fmc ?dc = Some (Inr (fileSize - numBytes ?h2, ?h2, fm2, ?d2))"
    by simp
  have s1': "0 \<le> singleIndirectSector ?h2" "singleIndirectSector ?h2 < int (length ?d2)"
    "singleIndirectSector ?h2 \<in> marked fm2"
    using s1 m(2) by simp_all
  from create fill' e(1-4) s1' tr2 m(1) l n show ?thesis by blast
qed

subsection \<open>Allocation: the double-indirect phase\<close>

lemma double_inv_cur_less:
  assumes ok: "params_ok P" and inv: "double_inv P cur dbl h fm d"
    and lt: "numBytes h < fileSize"
    and cap: "fileSize \<le> capacity P * int (SectorSize P)"
  shows "cur < int (NumIndirect P)"
proof (rule ccontr)
  assume "\<not> cur < int (NumIndirect P)"
  then have c: "int (NumIndirect P) \<le> cur" by simp
  note p = params_ok_pos[OF ok]
  let ?S = "int (SectorSize P)" and ?D = "int (NumDirect P)" and ?I = "int (NumIndirect P)"
  from c have "?I * ?I \<le> ?I * cur" by (simp add: mult_left_mono)
  then have "capacity P \<le> ?D + ?I * (1 + cur)" by (simp add: capacity_def algebra_simps)
  then have "capacity P * ?S \<le> (?D + ?I * (1 + cur)) * ?S"
    using p(1) by (simp add: mult_right_mono)
  with inv lt cap show False by (simp add: double_inv_def)
qed

lemma double_secondary_step:
  assumes ok: "params_ok P" and inv: "double_inv P cur dbl h fm d"
    and c: "cur < int (NumIndirect P)"
    and free: "0 < NumClear fm"
    and fs: "FindAndSet fm = (sec, fm1)"
  shows "double_secondary P cur dbl h fm d =
     Inr (dbl\<lparr>ind_dataSectors := (ind_dataSectors dbl)[nat cur := sec],
               ind_numSectors := cur + 1\<rparr>,
          fm1,
          d[nat sec := take (SectorSize P div 4) (words_of_Indirect (Indirect_new P)),
            nat (doubleIndirectSector h) := take (SectorSize P div 4)
              (words_of_Indirect (dbl\<lparr>ind_dataSectors := (ind_dataSectors dbl)[nat cur := sec],
                                        ind_numSectors := cur + 1\<rparr>))])"
proof -
  note f = FindAndSet_free[OF free fs]
  from inv have i: "0 \<le> cur" "ind_numSectors dbl = cur"
    "length (ind_dataSectors dbl) = NumIndirect P"
    "ind_dataSectors dbl ! nat cur = - 1"
    "0 \<le> doubleIndirectSector h" "doubleIndirectSector h < int (length d)"
    "length fm \<le> length d"
    using c by (auto simp: double_inv_def)
  from i(1,3) c have g: "arr_get (ind_dataSectors dbl) cur = Inr (- 1)"
    using i(4) by (simp add: arr_get_def)
  from i(1,2,3) c have s: "arr_set (ind_dataSectors dbl) (ind_numSectors dbl) sec =
      Inr ((ind_dataSectors dbl)[nat cur := sec])"
    by (simp add: arr_set_def)
  from f(1,2) i(7) have v: "0 \<le> sec" "sec < int (length d)" by simp_all
  show ?thesis
    unfolding double_secondary_def
    using g s fs v i(2,5,6)
    by (simp add: WriteSector_def Let_def)
qed

lemma int_div_less_bound:
  fixes a b c :: int
  assumes "0 < b" "a < b * c"
  shows "a div b < c"
proof (rule ccontr)
  assume "\<not> a div b < c"
  then have "c \<le> a div b" by simp
  then have "b * c \<le> b * (a div b)" using assms(1) by (simp add: mult_left_mono)
  moreover have "b * (a div b) + a mod b = a" by simp
  moreover have "0 \<le> a mod b" using assms(1) by simp
  ultimately show False using assms(2) by linarith
qed

lemma nth_update_other:
  fixes d :: disk
  assumes "0 \<le> x" "0 \<le> a" "0 \<le> b" "x \<noteq> a" "x \<noteq> b"
  shows "d[nat a := u, nat b := v, nat a := w] ! nat x = d ! nat x"
proof -
  from assms have "nat x \<noteq> nat a" "nat x \<noteq> nat b" by simp_all
  then show ?thesis by simp
qed

lemma double_iteration:
  fixes P cur dbl h fm d fileSize k sec fm1 xs fm2
  defines "S \<equiv> int (SectorSize P)" and "D \<equiv> int (NumDirect P)" and "I \<equiv> int (NumIndirect P)"
  defines "dbl1 \<equiv> dbl\<lparr>ind_dataSectors := (ind_dataSectors dbl)[nat cur := sec],
                         ind_numSectors := cur + 1\<rparr>"
  defines "d2 \<equiv> d[nat sec := take (SectorSize P div 4) (words_of_Indirect (Indirect_new P)),
                    nat (doubleIndirectSector h) :=
                      take (SectorSize P div 4) (words_of_Indirect dbl1)]"
  defines "ind \<equiv> \<lparr>ind_numSectors = int k,
                   ind_dataSectors = write_at (replicate (NumIndirect P) (- 1)) 0 xs\<rparr>"
  defines "d3 \<equiv> d2[nat sec := take (SectorSize P div 4) (words_of_Indirect ind)]"
  defines "h2 \<equiv> h\<lparr>numBytes := min fileSize ((numSectors h + I) * S),
                     numSectors := numSectors h + int k\<rparr>"
  assumes ok: "params_ok P" and inv: "double_inv P cur dbl h fm d"
    and lt: "numBytes h < fileSize"
    and c: "cur < I"
    and k: "k = nat (min (numSectors h + I) (divRoundUp fileSize S) - numSectors h)"
    and free: "1 + int k \<le> NumClear fm"
    and fs: "FindAndSet fm = (sec, fm1)"
    and dr: "draw_n k fm1 = (xs, fm2)"
  shows "double_secondary P cur dbl h fm d = Inr (dbl1, fm1, d2)"
    and "arr_get (ind_dataSectors dbl1) cur = Inr sec"
    and "AllocateIndirectSpace P fileSize sec (S * (D + I * (1 + cur))) h fm1 d2 =
           Some (Inr (fileSize - numBytes h2, h2, fm2, d3))"
    and "translates P h2 fm2 d3"
    and "NumClear fm2 = NumClear fm - 1 - int k" and "length fm2 = length fm"
    and "(numSectors h + I) * S < fileSize \<Longrightarrow> double_inv P (cur + 1) dbl1 h2 fm2 d3"
    and "marked fm \<subseteq> marked fm2"
proof -
  note p = params_ok_pos[OF ok]
  from free have pos: "0 < NumClear fm" by simp
  note f = FindAndSet_free[OF pos fs]
  from inv have i: "0 \<le> cur" "ind_numSectors dbl = cur"
    "length (ind_dataSectors dbl) = NumIndirect P"
    "numSectors h = D + I * (1 + cur)" "numBytes h = numSectors h * S"
    "length (dataSectors h) = NumDirect P"
    "translates P h fm d" "length fm \<le> length d"
    by (simp_all add: double_inv_def S_def D_def I_def)
  from inv have t: "0 \<le> doubleIndirectSector h" "doubleIndirectSector h < int (length d)"
    "doubleIndirectSector h \<in> marked fm"
    "Indirect_of_words P (d ! nat (doubleIndirectSector h)) = dbl"
    by (simp_all add: double_inv_def)
  from inv have s1: "0 \<le> singleIndirectSector h" "singleIndirectSector h < int (length d)"
    "singleIndirectSector h \<in> marked fm" "singleIndirectSector h \<noteq> doubleIndirectSector h"
    by (simp_all add: double_inv_def)
  from inv have secs: "\<And>j. j < nat cur \<Longrightarrow>
      0 \<le> ind_dataSectors dbl ! j \<and> ind_dataSectors dbl ! j < int (length d) \<and>
      ind_dataSectors dbl ! j \<in> marked fm \<and> ind_dataSectors dbl ! j \<noteq> doubleIndirectSector h"
    by (simp add: double_inv_def)
  from inv have rest: "\<And>j. nat cur \<le> j \<Longrightarrow> j < NumIndirect P \<Longrightarrow>
      ind_dataSectors dbl ! j = - 1"
    by (simp add: double_inv_def)
  from f(1,2) i(8) have v: "0 \<le> sec" "sec < int (length d)" by simp_all
  from f(3) t(3) have ts: "doubleIndirectSector h \<noteq> sec" by auto
  from f(3) s1(3) have ss: "singleIndirectSector h \<noteq> sec" by auto
  from ts t(1) v(1) have nts: "nat (doubleIndirectSector h) \<noteq> nat sec" by simp
  have ld: "length d2 = length d" "length d3 = length d" by (simp_all add: d2_def d3_def)
  have base0: "0 \<le> numSectors h" using i(1,4) by (simp add: D_def I_def)
  show sec_step: "double_secondary P cur dbl h fm d = Inr (dbl1, fm1, d2)"
    unfolding dbl1_def d2_def
    by (rule double_secondary_step[OF ok inv c[unfolded I_def] pos fs])
  have len1: "length (ind_dataSectors dbl1) = NumIndirect P" using i(3) by (simp add: dbl1_def)
  have ncur: "nat cur < NumIndirect P" using c i(1) by (simp add: I_def)
  show get: "arr_get (ind_dataSectors dbl1) cur = Inr sec"
    using i(1,3) c ncur by (simp add: arr_get_def dbl1_def I_def)
  from free f(6) have free2: "int k \<le> NumClear fm1" by simp
  note dl = draw_n_length[OF dr] and df = draw_n_fresh[OF free2 dr]
  from k have kI: "k \<le> NumIndirect P" by (simp add: I_def)
  have fresh: "Indirect_of_words P (d2 ! nat sec) = Indirect_new P"
    using v nts by (simp add: d2_def Indirect_of_words_new)
  have start: "S * (D + I * (1 + cur)) = numSectors h * S" using i(4) by simp
  have fill: "AllocateIndirectSpace P fileSize sec (numSectors h * int (SectorSize P)) h fm1 d2 =
     Some (Inr (fileSize - min fileSize ((numSectors h + int (NumIndirect P)) * int (SectorSize P)),
                h\<lparr>numBytes := min fileSize ((numSectors h + int (NumIndirect P)) * int (SectorSize P)),
                  numSectors := numSectors h + int k\<rparr>,
                fm2,
                d2[nat sec := take (SectorSize P div 4)
                    (words_of_Indirect \<lparr>ind_numSectors = int k,
                       ind_dataSectors = write_at (replicate (NumIndirect P) (- 1)) 0 xs\<rparr>)]))"
  proof (rule AllocateIndirectSpace_fresh[OF ok _ _ fresh refl base0 _ lt _ dr])
    show "0 \<le> sec" "sec < int (length d2)" using v ld by simp_all
    show "numBytes h = numSectors h * int (SectorSize P)" using i(5) by (simp add: S_def)
    show "k = nat (min (numSectors h + int (NumIndirect P))
        (divRoundUp fileSize (int (SectorSize P))) - numSectors h)"
      using k by (simp add: S_def I_def)
  qed
  have nb2: "numBytes h2 = min fileSize ((numSectors h + I) * S)" by (simp add: h2_def)
  show "AllocateIndirectSpace P fileSize sec (S * (D + I * (1 + cur))) h fm1 d2 =
           Some (Inr (fileSize - numBytes h2, h2, fm2, d3))"
    unfolding start nb2 using fill
    by (simp add: h2_def d3_def ind_def S_def I_def)
  show nc: "NumClear fm2 = NumClear fm - 1 - int k" using df f(6) by simp
  show lf: "length fm2 = length fm" using dl f(5) by simp
  have lenw: "length (ind_dataSectors ind) = NumIndirect P"
    using dl kI by (simp add: ind_def)
  have top3: "Indirect_of_words P (d3 ! nat (doubleIndirectSector h)) = dbl1"
    using t(1,2) nts p(4) len1
    by (simp add: d3_def d2_def Indirect_of_words_of Indirect_of_words_of_full)
  have blk3: "Indirect_of_words P (d3 ! nat sec) = ind"
    using v p(4) lenw
    by (simp add: d3_def d2_def Indirect_of_words_of Indirect_of_words_of_full)
  have other: "d3 ! nat x = d ! nat x"
    if "0 \<le> x" "x \<noteq> sec" "x \<noteq> doubleIndirectSector h" for x
    unfolding d3_def d2_def
    by (rule nth_update_other[OF that(1) v(1) t(1) that(2,3)])
  have m: "marked fm \<subseteq> marked fm1" "marked fm1 \<subseteq> marked fm2" "sec \<in> marked fm1"
    using f(4) df by auto
  have tr2: "translates P h2 fm2 d3"
  proof (rule translates_extend[where h = h and fm = fm and d = d and xs = xs])
    show "translates P h fm d" by (rule i(7))
    show "0 \<le> numSectors h" by (rule base0)
    show "numSectors h2 = numSectors h + int (length xs)" using dl by (simp add: h2_def)
    show "distinct xs" using df by simp
    show "set xs \<inter> marked fm = {}" using df m(1) by auto
    show "marked fm \<union> set xs \<subseteq> marked fm2" using df m(1) by auto
    show "GetPhysicSector P h2 d3 i = GetPhysicSector P h d i"
      if r: "0 \<le> i" "i < numSectors h" for i
    proof -
      consider (dir) "i < D" | (sng) "D \<le> i" "i < D + I" | (dbl) "D + I \<le> i"
        by linarith
      then show ?thesis
      proof cases
        case dir
        with r(1) i(6) show ?thesis
          by (simp add: GetPhysicSector_direct D_def h2_def)
      next
        case sng
        have "GetPhysicSector P h2 d3 i =
            Inr (ind_dataSectors (Indirect_of_words P (d3 ! nat (singleIndirectSector h2))) !
                   nat (i - int (NumDirect P)))"
          using sng s1(1,2) ld
          by (intro GetPhysicSector_single) (simp_all add: D_def I_def h2_def)
        moreover have "GetPhysicSector P h d i =
            Inr (ind_dataSectors (Indirect_of_words P (d ! nat (singleIndirectSector h))) !
                   nat (i - int (NumDirect P)))"
          using sng s1(1,2)
          by (intro GetPhysicSector_single) (simp_all add: D_def I_def)
        moreover have "d3 ! nat (singleIndirectSector h) = d ! nat (singleIndirectSector h)"
          by (rule other[OF s1(1) ss s1(4)])
        ultimately show ?thesis by (simp add: h2_def)
      next
        case dbl
        let ?a = "i - (int (NumDirect P) + int (NumIndirect P))"
        let ?q = "?a div int (NumIndirect P)"
        from dbl have a0: "0 \<le> ?a" by (simp add: D_def I_def)
        from r(2) i(4) have "?a < int (NumIndirect P) * cur"
          by (simp add: D_def I_def algebra_simps)
        then have qc: "?q < cur" using p(3) by (intro int_div_less_bound) simp_all
        from a0 p(3) have q0: "0 \<le> ?q" by (simp add: pos_imp_zdiv_nonneg_iff)
        from qc q0 have nq: "nat ?q < nat cur" by simp
        from qc c have qI: "?q < int (NumIndirect P)" by (simp add: I_def)
        let ?sq = "ind_dataSectors dbl ! nat ?q"
        note sq = secs[OF nq]
        from sq m(1) f(3) have sqs: "?sq \<noteq> sec" by auto
        from nq have nqc: "nat cur \<noteq> nat ?q" by linarith
        have e1: "ind_dataSectors dbl1 ! nat ?q = ?sq"
          unfolding dbl1_def using nth_list_update_neq[OF nqc] by simp
        have "GetPhysicSector P h2 d3 i =
            Inr (ind_dataSectors (Indirect_of_words P (d3 ! nat ?sq)) !
                   nat (?a mod int (NumIndirect P)))"
        proof (rule GetPhysicSector_double[OF _ qI p(3)])
          show "int (NumDirect P) + int (NumIndirect P) \<le> i" using dbl by (simp add: D_def I_def)
          show "0 \<le> doubleIndirectSector h2" "doubleIndirectSector h2 < int (length d3)"
            using t(1,2) ld by (simp_all add: h2_def)
          show "?sq = ind_dataSectors (Indirect_of_words P (d3 ! nat (doubleIndirectSector h2))) !
              nat ?q"
            using top3 e1 by (simp add: h2_def)
          show "0 \<le> ?sq" "?sq < int (length d3)" using sq ld by simp_all
        qed
        moreover have "GetPhysicSector P h d i =
            Inr (ind_dataSectors (Indirect_of_words P (d ! nat ?sq)) !
                   nat (?a mod int (NumIndirect P)))"
        proof (rule GetPhysicSector_double[OF _ qI p(3)])
          show "int (NumDirect P) + int (NumIndirect P) \<le> i" using dbl by (simp add: D_def I_def)
          show "0 \<le> doubleIndirectSector h" "doubleIndirectSector h < int (length d)"
            using t(1,2) by simp_all
          show "?sq = ind_dataSectors (Indirect_of_words P (d ! nat (doubleIndirectSector h))) !
              nat ?q"
            using t(4) by simp
          show "0 \<le> ?sq" "?sq < int (length d)" using sq by simp_all
        qed
        moreover have "d3 ! nat ?sq = d ! nat ?sq"
          using sq sqs by (intro other) simp_all
        ultimately show ?thesis by simp
      qed
    qed
    show "GetPhysicSector P h2 d3 i = Inr (xs ! nat (i - numSectors h))"
      if r: "numSectors h \<le> i" "i < numSectors h2" for i
    proof -
      let ?a = "i - (int (NumDirect P) + int (NumIndirect P))"
      let ?r = "i - numSectors h"
      from r have r0: "0 \<le> ?r" "?r < int k" by (simp_all add: h2_def)
      with kI have rI: "?r < int (NumIndirect P)" by simp
      have a: "?a = int (NumIndirect P) * cur + ?r"
        using i(4) by (simp add: D_def I_def algebra_simps)
      note q = int_div_pos_eq[OF a r0(1) rI] and md = int_mod_pos_eq[OF a r0(1) rI]
      have qI: "?a div int (NumIndirect P) < int (NumIndirect P)" using q c by (simp add: I_def)
      have "GetPhysicSector P h2 d3 i =
          Inr (ind_dataSectors (Indirect_of_words P (d3 ! nat sec)) !
                 nat (?a mod int (NumIndirect P)))"
      proof (rule GetPhysicSector_double[OF _ qI p(3)])
        have "0 \<le> int (NumIndirect P) * cur" using i(1) by simp
        then show "int (NumDirect P) + int (NumIndirect P) \<le> i"
          using r(1) i(4) by (simp add: D_def I_def algebra_simps)
        show "0 \<le> doubleIndirectSector h2" "doubleIndirectSector h2 < int (length d3)"
          using t(1,2) ld by (simp_all add: h2_def)
        show "sec = ind_dataSectors (Indirect_of_words P (d3 ! nat (doubleIndirectSector h2))) !
            nat (?a div int (NumIndirect P))"
          using top3 q ncur i(3) by (simp add: h2_def dbl1_def)
        show "0 \<le> sec" "sec < int (length d3)" using v ld by simp_all
      qed
      moreover from r0 have nr: "nat ?r < k" by linarith
      have "ind_dataSectors ind ! nat ?r = xs ! nat ?r"
        unfolding ind_def using nr dl kI by (simp add: nth_write_at)
      ultimately show ?thesis using blk3 md by simp
    qed
  qed
  show "translates P h2 fm2 d3" by (rule tr2)
  show "marked fm \<subseteq> marked fm2" using m by auto
  show "double_inv P (cur + 1) dbl1 h2 fm2 d3" if big: "(numSectors h + I) * S < fileSize"
  proof -
    have Spos: "0 < S" using p(1) by (simp add: S_def)
    from big have "\<not> fileSize \<le> (numSectors h + I) * S" by simp
    then have "\<not> divRoundUp fileSize S \<le> numSectors h + I"
      by (simp add: divRoundUp_le_iff[OF Spos])
    with k have kk: "int k = I" by (simp add: I_def)
    from big have nb: "numBytes h2 = (numSectors h + I) * S" by (simp add: h2_def)
    have ns: "numSectors h2 = D + I * (1 + (cur + 1))"
      using kk i(4) by (simp add: h2_def algebra_simps)
    have a1: "0 \<le> cur + 1" "ind_numSectors dbl1 = cur + 1" using i(1) by (simp_all add: dbl1_def)
    have a2: "\<forall>j. nat (cur + 1) \<le> j \<and> j < NumIndirect P \<longrightarrow> ind_dataSectors dbl1 ! j = - 1"
    proof (intro allI impI)
      fix j assume j: "nat (cur + 1) \<le> j \<and> j < NumIndirect P"
      with i(1) have "nat cur \<le> j" "j \<noteq> nat cur" by linarith+
      with rest[of j] j show "ind_dataSectors dbl1 ! j = - 1" by (simp add: dbl1_def)
    qed
    have a3: "numBytes h2 = numSectors h2 * int (SectorSize P)"
      using nb kk by (simp add: h2_def S_def)
    have a4: "\<forall>j < nat (cur + 1). 0 \<le> ind_dataSectors dbl1 ! j \<and>
        ind_dataSectors dbl1 ! j < int (length d3) \<and> ind_dataSectors dbl1 ! j \<in> marked fm2 \<and>
        ind_dataSectors dbl1 ! j \<noteq> doubleIndirectSector h2"
    proof (intro allI impI)
      fix j assume j: "j < nat (cur + 1)"
      show "0 \<le> ind_dataSectors dbl1 ! j \<and>
        ind_dataSectors dbl1 ! j < int (length d3) \<and> ind_dataSectors dbl1 ! j \<in> marked fm2 \<and>
        ind_dataSectors dbl1 ! j \<noteq> doubleIndirectSector h2"
      proof (cases "j = nat cur")
        case True
        then have "ind_dataSectors dbl1 ! j = sec" using ncur i(3) by (simp add: dbl1_def)
        with v ld m ts show ?thesis by (auto simp: h2_def)
      next
        case False
        with j i(1) have jl: "j < nat cur" by linarith
        from False have "ind_dataSectors dbl1 ! j = ind_dataSectors dbl ! j"
          by (simp add: dbl1_def)
        with secs[OF jl] ld m show ?thesis by (auto simp: h2_def)
      qed
    qed
    have a5: "doubleIndirectSector h2 \<in> marked fm2" "singleIndirectSector h2 \<in> marked fm2"
      using t(3) s1(3) m by (auto simp: h2_def)
    show ?thesis
      unfolding double_inv_def
      using a1 len1 a2 ns a3 i(6) t(1,2) s1(1,2,4) ld a5 top3 a4 tr2 lf i(8)
      by (simp add: h2_def D_def I_def)
  qed
qed

lemma divRoundUp_add_self:
  "0 < s \<Longrightarrow> divRoundUp (n + s) s = divRoundUp n s + 1"
  by (simp add: divRoundUp_def div_add_self2)

lemma divRoundUp_pos_iff:
  "0 < s \<Longrightarrow> 0 < divRoundUp n s \<longleftrightarrow> 0 < n"
  using divRoundUp_le_iff[of s n 0] by auto

lemma double_loop:
  assumes ok: "params_ok P"
    and cap: "fileSize \<le> capacity P * int (SectorSize P)"
  shows "n = nat (int (NumIndirect P) - cur) \<Longrightarrow> double_inv P cur dbl h fm d \<Longrightarrow>
     numBytes h < fileSize \<Longrightarrow>
     rest = divRoundUp fileSize (int (SectorSize P)) - numSectors h \<Longrightarrow>
     rest + divRoundUp rest (int (NumIndirect P)) \<le> NumClear fm \<Longrightarrow>
     \<exists>h' fm' d'. AllocateDoubleIndirectBlock_loop P fileSize cur dbl h fm d =
         Some (Inr (h', fm', d')) \<and>
       numBytes h' = fileSize \<and> numSectors h' = divRoundUp fileSize (int (SectorSize P)) \<and>
       translates P h' fm' d' \<and>
       NumClear fm' = NumClear fm - (rest + divRoundUp rest (int (NumIndirect P))) \<and>
       length fm' = length fm \<and>
       singleIndirectSector h' \<in> marked fm' \<and> doubleIndirectSector h' \<in> marked fm'"
proof (induction n arbitrary: cur dbl h fm d rest)
  case 0
  from double_inv_cur_less[OF ok "0.prems"(2,3) cap] "0.prems"(1) show ?case by simp
next
  case (Suc n)
  note p = params_ok_pos[OF ok]
  let ?S = "int (SectorSize P)" and ?D = "int (NumDirect P)" and ?I = "int (NumIndirect P)"
  let ?dru = "divRoundUp fileSize ?S"
  let ?ns = "numSectors h"
  note inv = Suc.prems(2) and lt = Suc.prems(3)
  have Spos: "0 < ?S" and Ipos: "0 < ?I" using p by simp_all
  note le = divRoundUp_le_iff[OF Spos]
  from inv have nb: "numBytes h = ?ns * ?S" and n0: "0 \<le> ?ns"
    and cn: "ind_numSectors dbl = cur"
    by (simp_all add: double_inv_def)
  from lt nb have "\<not> fileSize \<le> ?ns * ?S" by simp
  then have "\<not> ?dru \<le> ?ns" by (simp add: le)
  with Suc.prems(4) have rpos: "0 < rest" by simp
  define k where "k = nat (min (?ns + ?I) ?dru - ?ns)"
  have kr: "int k = min ?I rest" using rpos Suc.prems(4) Ipos by (simp add: k_def min_def)
  have d1: "1 \<le> divRoundUp rest ?I"
    using divRoundUp_pos_iff[OF Ipos, of rest] rpos by simp
  from kr d1 Suc.prems(5) have free: "1 + int k \<le> NumClear fm" by simp
  obtain sec fm1 where fs: "FindAndSet fm = (sec, fm1)" by (cases "FindAndSet fm")
  obtain xs fm2 where dr: "draw_n k fm1 = (xs, fm2)" by (cases "draw_n k fm1")
  let ?dbl1 = "dbl\<lparr>ind_dataSectors := (ind_dataSectors dbl)[nat cur := sec],
                         ind_numSectors := cur + 1\<rparr>"
  let ?d2 = "d[nat sec := take (SectorSize P div 4) (words_of_Indirect (Indirect_new P)),
                    nat (doubleIndirectSector h) :=
                      take (SectorSize P div 4) (words_of_Indirect ?dbl1)]"
  let ?ind = "\<lparr>ind_numSectors = int k,
                   ind_dataSectors = write_at (replicate (NumIndirect P) (- 1)) 0 xs\<rparr>"
  let ?d3 = "?d2[nat sec := take (SectorSize P div 4) (words_of_Indirect ?ind)]"
  let ?h2 = "h\<lparr>numBytes := min fileSize ((?ns + ?I) * ?S), numSectors := ?ns + int k\<rparr>"
  have c: "cur < ?I" by (rule double_inv_cur_less[OF ok inv lt cap])
  note it = double_iteration[OF ok inv lt c k_def free fs dr]
  have unfold: "AllocateDoubleIndirectBlock_loop P fileSize cur dbl h fm d =
      (if fileSize - numBytes ?h2 \<noteq> 0
       then AllocateDoubleIndirectBlock_loop P fileSize (cur + 1) ?dbl1 ?h2 fm2 ?d3
       else Some (Inr (?h2, fm2, ?d3)))"
    by (subst AllocateDoubleIndirectBlock_loop.simps)
       (simp only: cn it(1) it(2) it(3) Let_def sum.case prod.case option.case
          order_refl not_True_eq_False if_False)
  show ?case
  proof (cases "fileSize \<le> (?ns + ?I) * ?S")
    case True
    then have e: "numBytes ?h2 = fileSize" by simp
    from True have "?dru \<le> ?ns + ?I" by (simp add: le)
    then have ri: "rest \<le> ?I" using Suc.prems(4) by simp
    with kr have kk: "int k = rest" by simp
    then have ns': "numSectors ?h2 = ?dru" using Suc.prems(4) by simp
    from ri have "divRoundUp rest ?I \<le> 1" by (simp add: divRoundUp_le_iff[OF Ipos])
    with d1 have "divRoundUp rest ?I = 1" by simp
    with it(5) kk have nc: "NumClear fm2 = NumClear fm - (rest + divRoundUp rest ?I)" by simp
    from inv have "singleIndirectSector h \<in> marked fm" "doubleIndirectSector h \<in> marked fm"
      by (simp_all add: double_inv_def)
    with it(8) have ix: "singleIndirectSector ?h2 \<in> marked fm2"
      "doubleIndirectSector ?h2 \<in> marked fm2"
      by auto
    from unfold e have "AllocateDoubleIndirectBlock_loop P fileSize cur dbl h fm d =
        Some (Inr (?h2, fm2, ?d3))" by simp
    with e ns' it(4) nc it(6) ix show ?thesis by blast
  next
    case False
    then have big: "(?ns + ?I) * ?S < fileSize" by simp
    then have e: "numBytes ?h2 = (?ns + ?I) * ?S" by simp
    from False have "\<not> ?dru \<le> ?ns + ?I" by (simp add: le)
    then have ri: "?I < rest" using Suc.prems(4) by simp
    with kr have kk: "int k = ?I" by simp
    note inv2 = it(7)[OF big]
    have n': "n = nat (?I - (cur + 1))" using Suc.prems(1) by simp
    have lt2: "numBytes ?h2 < fileSize" using e big by simp
    define rest' where "rest' = ?dru - numSectors ?h2"
    have rr: "rest = rest' + ?I" using kk Suc.prems(4) by (simp add: rest'_def)
    have dd: "divRoundUp rest ?I = divRoundUp rest' ?I + 1"
      unfolding rr by (rule divRoundUp_add_self[OF Ipos])
    have free': "rest' + divRoundUp rest' ?I \<le> NumClear fm2"
      using Suc.prems(5) it(5) kk rr dd by simp
    from Suc.IH[OF n' inv2 lt2 rest'_def free']
    obtain h' fm' d' where r: "AllocateDoubleIndirectBlock_loop P fileSize (cur + 1) ?dbl1 ?h2 fm2 ?d3 =
         Some (Inr (h', fm', d'))"
       "numBytes h' = fileSize" "numSectors h' = ?dru" "translates P h' fm' d'"
       "NumClear fm' = NumClear fm2 - (rest' + divRoundUp rest' ?I)" "length fm' = length fm2"
       "singleIndirectSector h' \<in> marked fm'" "doubleIndirectSector h' \<in> marked fm'"
      by blast
    from unfold e big have "AllocateDoubleIndirectBlock_loop P fileSize cur dbl h fm d =
        AllocateDoubleIndirectBlock_loop P fileSize (cur + 1) ?dbl1 ?h2 fm2 ?d3"
      by simp
    with r(1) have run: "AllocateDoubleIndirectBlock_loop P fileSize cur dbl h fm d =
        Some (Inr (h', fm', d'))" by simp
    have nc: "NumClear fm' = NumClear fm - (rest + divRoundUp rest ?I)"
      using r(5) it(5) kk rr dd by simp
    from run r(2,3,4) nc r(6) it(6) r(7,8) show ?thesis by simp
  qed
qed

lemma AllocateDoubleIndirectBlock_entry:
  fixes P h3 fm3 d3 fileSize t fm
  defines "h \<equiv> h3\<lparr>doubleIndirectSector := t\<rparr>"
  defines "d \<equiv> d3[nat t := take (SectorSize P div 4) (words_of_Indirect (Indirect_new P))]"
  assumes ok: "params_ok P"
    and h3: "numSectors h3 = int (NumDirect P) + int (NumIndirect P)"
      "numBytes h3 = (int (NumDirect P) + int (NumIndirect P)) * int (SectorSize P)"
      "length (dataSectors h3) = NumDirect P"
      "doubleIndirectSector h3 = - 1"
      "0 \<le> singleIndirectSector h3" "singleIndirectSector h3 < int (length d3)"
      "singleIndirectSector h3 \<in> marked fm3"
    and tr: "translates P h3 fm3 d3"
    and disk: "length fm3 \<le> length d3"
    and pos: "0 < NumClear fm3"
    and fs: "FindAndSet fm3 = (t, fm)"
  shows "AllocateDoubleIndirectBlock P fileSize h3 fm3 d3 =
      AllocateDoubleIndirectBlock_loop P fileSize 0 (Indirect_new P) h fm d"
    and "double_inv P 0 (Indirect_new P) h fm d"
    and "NumClear fm = NumClear fm3 - 1" and "length fm = length fm3"
proof -
  let ?S = "int (SectorSize P)" and ?D = "int (NumDirect P)" and ?I = "int (NumIndirect P)"
  note f = FindAndSet_free[OF pos fs]
  from f(1,2) disk have tv: "0 \<le> t" "t < int (length d3)" by simp_all
  from f(3) h3(7) have st: "singleIndirectSector h3 \<noteq> t" by auto
  show "AllocateDoubleIndirectBlock P fileSize h3 fm3 d3 =
      AllocateDoubleIndirectBlock_loop P fileSize 0 (Indirect_new P) h fm d"
    using h3(4) fs tv by (simp add: AllocateDoubleIndirectBlock_def WriteSector_def h_def d_def)
  have same: "d ! nat (singleIndirectSector h3) = d3 ! nat (singleIndirectSector h3)"
    using st h3(5) tv(1) by (simp add: d_def)
  have tr': "translates P h fm d"
  proof (rule translates_extend[where h = h3 and fm = fm3 and d = d3 and xs = "[]"])
    show "translates P h3 fm3 d3" by (rule tr)
    show "0 \<le> numSectors h3" using h3(1) by simp
    show "numSectors h = numSectors h3 + int (length [])" by (simp add: h_def)
    show "distinct []" "set [] \<inter> marked fm3 = {}" by simp_all
    show "marked fm3 \<union> set [] \<subseteq> marked fm" using f(4) by auto
    show "GetPhysicSector P h d i = Inr ([] ! nat (i - numSectors h3))"
      if "numSectors h3 \<le> i" "i < numSectors h" for i
      using that by (simp add: h_def)
    show "GetPhysicSector P h d i = GetPhysicSector P h3 d3 i"
      if r: "0 \<le> i" "i < numSectors h3" for i
    proof (cases "i < ?D")
      case True
      with r(1) h3(3) show ?thesis by (simp add: GetPhysicSector_direct h_def)
    next
      case False
      with r(2) h3(1) have s: "?D \<le> i" "i < ?D + ?I" by simp_all
      have "GetPhysicSector P h d i =
          Inr (ind_dataSectors (Indirect_of_words P (d ! nat (singleIndirectSector h))) !
                 nat (i - ?D))"
        using h3(5,6) by (intro GetPhysicSector_single[OF s]) (simp_all add: h_def d_def)
      moreover have "GetPhysicSector P h3 d3 i =
          Inr (ind_dataSectors (Indirect_of_words P (d3 ! nat (singleIndirectSector h3))) !
                 nat (i - ?D))"
        using h3(5,6) by (intro GetPhysicSector_single[OF s]) simp_all
      ultimately show ?thesis using same by (simp add: h_def)
    qed
  qed
  have dt: "d ! nat t = take (SectorSize P div 4) (words_of_Indirect (Indirect_new P))"
    using tv by (simp add: d_def)
  have ld: "length d = length d3" by (simp add: d_def)
  have hs: "numSectors h = numSectors h3" "numBytes h = numBytes h3"
    "dataSectors h = dataSectors h3" "singleIndirectSector h = singleIndirectSector h3"
    "doubleIndirectSector h = t"
    by (simp_all add: h_def)
  show "double_inv P 0 (Indirect_new P) h fm d"
    unfolding double_inv_def hs dt ld
    using h3(1,2,3,5,6,7) tv f(4,5) st tr' disk
    by (simp add: Indirect_new_def Indirect_of_words_new[unfolded Indirect_new_def])
  show "NumClear fm = NumClear fm3 - 1" by (rule f(6))
  show "length fm = length fm3" by (rule f(5))
qed

lemma Allocate_double_phase:
  assumes ok: "params_ok P"
    and cap: "fileSize \<le> capacity P * int (SectorSize P)"
    and h3: "numSectors h3 = int (NumDirect P) + int (NumIndirect P)"
      "numBytes h3 = (int (NumDirect P) + int (NumIndirect P)) * int (SectorSize P)"
      "numBytes h3 < fileSize" "length (dataSectors h3) = NumDirect P"
      "doubleIndirectSector h3 = - 1"
      "0 \<le> singleIndirectSector h3" "singleIndirectSector h3 < int (length d3)"
      "singleIndirectSector h3 \<in> marked fm3"
    and tr: "translates P h3 fm3 d3"
    and disk: "length fm3 \<le> length d3"
    and rest: "rest = divRoundUp fileSize (int (SectorSize P)) -
                 (int (NumDirect P) + int (NumIndirect P))"
    and free: "1 + rest + divRoundUp rest (int (NumIndirect P)) \<le> NumClear fm3"
  shows "\<exists>h' fm' d'. AllocateDoubleIndirectBlock P fileSize h3 fm3 d3 = Some (Inr (h', fm', d')) \<and>
     numBytes h' = fileSize \<and> numSectors h' = divRoundUp fileSize (int (SectorSize P)) \<and>
     translates P h' fm' d' \<and>
     NumClear fm' = NumClear fm3 - (1 + rest + divRoundUp rest (int (NumIndirect P))) \<and>
     length fm' = length fm3 \<and>
     singleIndirectSector h' \<in> marked fm' \<and> doubleIndirectSector h' \<in> marked fm'"
proof -
  note p = params_ok_pos[OF ok]
  let ?S = "int (SectorSize P)" and ?D = "int (NumDirect P)" and ?I = "int (NumIndirect P)"
  have Spos: "0 < ?S" and Ipos: "0 < ?I" using p by simp_all
  from h3(2,3) have "\<not> fileSize \<le> (?D + ?I) * ?S" by simp
  then have "\<not> divRoundUp fileSize ?S \<le> ?D + ?I" by (simp add: divRoundUp_le_iff[OF Spos])
  with rest have rpos: "0 < rest" by simp
  then have "0 < divRoundUp rest ?I" by (simp add: divRoundUp_pos_iff[OF Ipos])
  with free rpos have pos: "0 < NumClear fm3" by simp
  obtain t fm where fs: "FindAndSet fm3 = (t, fm)" by (cases "FindAndSet fm3")
  let ?h = "h3\<lparr>doubleIndirectSector := t\<rparr>"
  let ?d = "d3[nat t := take (SectorSize P div 4) (words_of_Indirect (Indirect_new P))]"
  note en = AllocateDoubleIndirectBlock_entry[OF ok h3(1,2,4,5,6,7,8) tr disk pos fs]
  have lt: "numBytes ?h < fileSize" using h3(3) by simp
  have r0: "rest = divRoundUp fileSize ?S - numSectors ?h" using rest h3(1) by simp
  have free': "rest + divRoundUp rest ?I \<le> NumClear fm" using free en(3) by simp
  from double_loop[OF ok cap refl en(2) lt r0 free']
  obtain h' fm' d' where r: "AllocateDoubleIndirectBlock_loop P fileSize 0 (Indirect_new P) ?h fm ?d =
         Some (Inr (h', fm', d'))"
       "numBytes h' = fileSize" "numSectors h' = divRoundUp fileSize ?S" "translates P h' fm' d'"
       "NumClear fm' = NumClear fm - (rest + divRoundUp rest ?I)" "length fm' = length fm"
       "singleIndirectSector h' \<in> marked fm'" "doubleIndirectSector h' \<in> marked fm'"
    by blast
  from r(5) en(3) have "NumClear fm' = NumClear fm3 - (1 + rest + divRoundUp rest ?I)" by simp
  with en(1) r(1,2,3,4,6,7,8) en(4) show ?thesis by simp
qed

subsection \<open>Allocation from a zeroed header\<close>

lemma Allocate_zeroed_correct:
  assumes ok: "params_ok P"
    and cap: "fileSize \<le> capacity P * int (SectorSize P)"
    and free: "sectors_needed P fileSize \<le> NumClear fm"
    and disk: "length fm \<le> length d"
  shows "\<exists>h' fm' d'. Allocate P (FileHeader_new P) fm d fileSize = Some (Inr (True, h', fm', d')) \<and>
     numBytes h' = fileSize \<and>
     numSectors h' = max 0 (divRoundUp fileSize (int (SectorSize P))) \<and>
     translates P h' fm' d' \<and>
     NumClear fm' = NumClear fm - sectors_needed P fileSize \<and> length fm' = length fm \<and>
     (singleIndirectSector h' = - 1 \<or> singleIndirectSector h' \<in> marked fm') \<and>
     (doubleIndirectSector h' = - 1 \<or> doubleIndirectSector h' \<in> marked fm')"
proof -
  note p = params_ok_pos[OF ok]
  let ?S = "int (SectorSize P)" and ?D = "int (NumDirect P)" and ?I = "int (NumIndirect P)"
  let ?n = "divRoundUp fileSize ?S"
  have Spos: "0 < ?S" and Ipos: "0 < ?I" and Dpos: "0 < ?D" using p by simp_all
  note le = divRoundUp_le_iff[OF Spos]
  have adm: "\<not> NumClear fm < numSectors (FileHeader_new P)"
    using NumClear_nonneg[of fm] by (simp add: FileHeader_new_def)
  define k where "k = nat (min ?D ?n)"
  have dpos: "0 < divRoundUp (?n - (?D + ?I)) ?I" if "?D + ?I < ?n"
    using that by (simp add: divRoundUp_pos_iff[OF Ipos])
  have need_k: "int k \<le> sectors_needed P fileSize"
    using dpos by (auto simp: k_def sectors_needed_def Let_def min_def)
  with free have fk: "int k \<le> NumClear fm" by simp
  from Allocate_direct_phase[OF ok k_def fk, of d]
  obtain h1 fm1 where d1: "AllocateDirectBlocks P fileSize (FileHeader_new P) fm = Inr (h1, fm1)"
    "numBytes h1 = min fileSize (?D * ?S)" "numSectors h1 = int k"
    "length (dataSectors h1) = NumDirect P"
    "singleIndirectSector h1 = - 1" "doubleIndirectSector h1 = - 1"
    "translates P h1 fm1 d" "marked fm \<subseteq> marked fm1" "length fm1 = length fm"
    "NumClear fm1 = NumClear fm - int k"
    by blast
  show ?thesis
  proof (cases "fileSize \<le> ?D * ?S")
    case True
    then have n: "?n \<le> ?D" by (simp add: le)
    then have kk: "int k = max 0 ?n" by (simp add: k_def)
    from n have sn: "sectors_needed P fileSize = max 0 ?n"
      by (simp add: sectors_needed_def Let_def)
    from True d1(2) have nb: "numBytes h1 = fileSize" by simp
    have "Allocate P (FileHeader_new P) fm d fileSize = Some (Inr (True, h1, fm1, d))"
      using adm d1(1) True by (simp add: Allocate_def)
    with nb d1(3,5,6,7,9,10) kk sn show ?thesis by simp
  next
    case False
    then have big: "?D * ?S < fileSize" by simp
    from False have "\<not> ?n \<le> ?D" by (simp add: le)
    then have n: "?D < ?n" by simp
    then have kk: "int k = ?D" by (simp add: k_def)
    from big d1(2) have nb1: "numBytes h1 = ?D * ?S" by simp
    define k2 where "k2 = nat (min (?D + ?I) ?n - ?D)"
    have k2pos: "0 < k2" using n Ipos by (simp add: k2_def)
    have need2: "?D + 1 + int k2 \<le> sectors_needed P fileSize"
      using n Dpos dpos
      by (auto simp: k2_def sectors_needed_def Let_def min_def)
    with free d1(10) kk have f2: "1 + int k2 \<le> NumClear fm1" by simp
    from disk d1(9) have disk1: "length fm1 \<le> length d" by simp
    from Allocate_single_phase[OF ok big nb1 d1(3)[unfolded kk] d1(4,5,7) k2_def f2 disk1]
    obtain hc fmc dc h2 fm2 d2 where s:
      "CreateSingleIndirectBlock P h1 fm1 d = Inr (hc, fmc, dc)"
      "AllocateIndirectSpace P fileSize (singleIndirectSector hc) (?D * ?S) hc fmc dc =
         Some (Inr (fileSize - numBytes h2, h2, fm2, d2))"
      "numBytes h2 = min fileSize ((?D + ?I) * ?S)"
      "numSectors h2 = ?D + int k2"
      "dataSectors h2 = dataSectors h1" "doubleIndirectSector h2 = doubleIndirectSector h1"
      "0 \<le> singleIndirectSector h2" "singleIndirectSector h2 < int (length d2)"
      "singleIndirectSector h2 \<in> marked fm2"
      "translates P h2 fm2 d2" "marked fm1 \<subseteq> marked fm2" "length fm2 = length fm1"
      "length d2 = length d" "NumClear fm2 = NumClear fm1 - 1 - int k2"
      by blast
    have asrt: "\<not> \<not> ?D * ?S \<le> numBytes h1" using nb1 by simp
    have pre: "Allocate P (FileHeader_new P) fm d fileSize =
        (if fileSize - numBytes h2 = 0 then Some (Inr (True, h2, fm2, d2))
         else if \<not> fileSize - numBytes h2 > 0 then Some (Inl AssertFailed)
         else (case AllocateDoubleIndirectBlock P fileSize h2 fm2 d2 of
                 None \<Rightarrow> None
               | Some (Inl e) \<Rightarrow> Some (Inl e)
               | Some (Inr (h4, freeMap4, d4)) \<Rightarrow> Some (Inr (True, h4, freeMap4, d4))))"
      unfolding Allocate_def
      by (simp only: adm d1(1) False asrt s(1) s(2) if_False sum.case prod.case option.case)
    show ?thesis
    proof (cases "fileSize \<le> (?D + ?I) * ?S")
      case True
      then have n2: "?n \<le> ?D + ?I" by (simp add: le)
      from True s(3) have nb2: "numBytes h2 = fileSize" by simp
      from n2 n have kk2: "int k2 = ?n - ?D" by (simp add: k2_def)
      from n n2 Dpos have sn: "sectors_needed P fileSize = ?n + 1"
        by (simp add: sectors_needed_def Let_def)
      from pre nb2 have "Allocate P (FileHeader_new P) fm d fileSize =
          Some (Inr (True, h2, fm2, d2))" by simp
      moreover have "numSectors h2 = max 0 ?n" using s(4) kk2 n Dpos by simp
      moreover have "NumClear fm2 = NumClear fm - sectors_needed P fileSize"
        using s(14) d1(10) kk kk2 sn by simp
      moreover have "length fm2 = length fm" using s(12) d1(9) by simp
      moreover have "doubleIndirectSector h2 = - 1" using s(6) d1(6) by simp
      ultimately show ?thesis using nb2 s(9,10) by simp
    next
      case f2: False
      then have big2: "(?D + ?I) * ?S < fileSize" by simp
      from f2 have "\<not> ?n \<le> ?D + ?I" by (simp add: le)
      then have n2: "?D + ?I < ?n" by simp
      then have kk2: "int k2 = ?I" by (simp add: k2_def)
      from big2 s(3) have nb2: "numBytes h2 = (?D + ?I) * ?S" by simp
      define rest where "rest = ?n - (?D + ?I)"
      from n n2 Dpos have sn: "sectors_needed P fileSize =
          ?n + 1 + (1 + divRoundUp rest ?I)"
        by (simp add: sectors_needed_def Let_def rest_def)
      have f3: "1 + rest + divRoundUp rest ?I \<le> NumClear fm2"
        using free sn s(14) d1(10) kk kk2 by (simp add: rest_def)
      have disk2: "length fm2 \<le> length d2" using s(12,13) disk1 by simp
      have h3: "numSectors h2 = ?D + ?I" using s(4) kk2 by simp
      have lt3: "numBytes h2 < fileSize" using nb2 big2 by simp
      have len3: "length (dataSectors h2) = NumDirect P" using s(5) d1(4) by simp
      have dbl3: "doubleIndirectSector h2 = - 1" using s(6) d1(6) by simp
      from Allocate_double_phase[OF ok cap h3 nb2 lt3 len3 dbl3 s(7,8,9,10) disk2 rest_def f3]
      obtain h' fm' d' where r:
        "AllocateDoubleIndirectBlock P fileSize h2 fm2 d2 = Some (Inr (h', fm', d'))"
        "numBytes h' = fileSize" "numSectors h' = ?n" "translates P h' fm' d'"
        "NumClear fm' = NumClear fm2 - (1 + rest + divRoundUp rest ?I)"
        "length fm' = length fm2"
        "singleIndirectSector h' \<in> marked fm'" "doubleIndirectSector h' \<in> marked fm'"
        by blast
      from pre nb2 big2 r(1) have "Allocate P (FileHeader_new P) fm d fileSize =
          Some (Inr (True, h', fm', d'))" by simp
      moreover have "numSectors h' = max 0 ?n" using r(3) n Dpos by simp
      moreover have "NumClear fm' = NumClear fm - sectors_needed P fileSize"
        using r(5) s(14) d1(10) kk kk2 sn by (simp add: rest_def)
      moreover have "length fm' = length fm" using r(6) s(12) d1(9) by simp
      ultimately show ?thesis using r(2,4,7,8) by simp
    qed
  qed
qed

subsection \<open>Allocation beyond the capacity\<close>

text \<open>
  Nothing bounds \<open>cur_numSectors\<close> in the do-while loop of lines 341-371. When the
  size exceeds the capacity and the map has a free sector for every draw, each round
  fills a whole secondary block and leaves bytes to place, so that the round after the
  last slot reads the top-level block at index \<open>NumIndirect\<close> (line 345).
\<close>

lemma double_loop_overflow:
  assumes ok: "params_ok P"
    and big: "capacity P * int (SectorSize P) < fileSize"
  shows "n = nat (int (NumIndirect P) - cur) \<Longrightarrow> cur \<le> int (NumIndirect P) \<Longrightarrow>
     double_inv P cur dbl h fm d \<Longrightarrow>
     (int (NumIndirect P) - cur) * (int (NumIndirect P) + 1) \<le> NumClear fm \<Longrightarrow>
     AllocateDoubleIndirectBlock_loop P fileSize cur dbl h fm d = Some (Inl OutOfBounds)"
proof (induction n arbitrary: cur dbl h fm d)
  case 0
  then have c: "cur = int (NumIndirect P)" by simp
  from "0.prems"(3) have i: "ind_numSectors dbl = cur"
    "length (ind_dataSectors dbl) = NumIndirect P"
    by (simp_all add: double_inv_def)
  have g: "arr_get (ind_dataSectors dbl) cur = Inl OutOfBounds"
    using c i(2) by (simp add: arr_get_def)
  show ?case
    by (subst AllocateDoubleIndirectBlock_loop.simps)
       (simp add: i(1) double_secondary_def g)
next
  case (Suc n)
  note p = params_ok_pos[OF ok]
  let ?S = "int (SectorSize P)" and ?D = "int (NumDirect P)" and ?I = "int (NumIndirect P)"
  let ?dru = "divRoundUp fileSize ?S"
  let ?ns = "numSectors h"
  note inv = Suc.prems(3)
  have Spos: "0 < ?S" and Ipos: "0 < ?I" using p by simp_all
  note le = divRoundUp_le_iff[OF Spos]
  from Suc.prems(1) have c: "cur < ?I" by simp
  from inv have nb: "numBytes h = ?ns * ?S" and n0: "0 \<le> ?ns"
    and cn: "ind_numSectors dbl = cur" and c0: "0 \<le> cur"
    and ns: "?ns = ?D + ?I * (1 + cur)"
    by (simp_all add: double_inv_def)
  from c have "?I * (1 + cur) \<le> ?I * ?I" using Ipos by (intro mult_left_mono) simp_all
  then have "?ns + ?I \<le> capacity P" using ns by (simp add: capacity_def)
  then have "(?ns + ?I) * ?S \<le> capacity P * ?S" using Spos by (intro mult_right_mono) simp_all
  with big have big': "(?ns + ?I) * ?S < fileSize" by simp
  have "?ns * ?S \<le> (?ns + ?I) * ?S" using Spos Ipos by (intro mult_right_mono) simp_all
  with big' nb have lt: "numBytes h < fileSize" by simp
  from big' have "\<not> fileSize \<le> (?ns + ?I) * ?S" by simp
  then have nd: "\<not> ?dru \<le> ?ns + ?I" by (simp add: le)
  define k where "k = nat (min (?ns + ?I) ?dru - ?ns)"
  have kk: "int k = ?I" using nd Ipos by (simp add: k_def)
  define m where "m = (?I - cur) * (?I + 1)"
  from c have "1 * (?I + 1) \<le> (?I - cur) * (?I + 1)"
    using Ipos by (intro mult_right_mono) simp_all
  then have "?I + 1 \<le> m" by (simp only: m_def mult_1)
  moreover from Suc.prems(4) have m: "m \<le> NumClear fm" by (simp only: m_def)
  ultimately have free: "1 + int k \<le> NumClear fm" using kk by linarith
  obtain sec fm1 where fs: "FindAndSet fm = (sec, fm1)" by (cases "FindAndSet fm")
  obtain xs fm2 where dr: "draw_n k fm1 = (xs, fm2)" by (cases "draw_n k fm1")
  let ?dbl1 = "dbl\<lparr>ind_dataSectors := (ind_dataSectors dbl)[nat cur := sec],
                         ind_numSectors := cur + 1\<rparr>"
  let ?d2 = "d[nat sec := take (SectorSize P div 4) (words_of_Indirect (Indirect_new P)),
                    nat (doubleIndirectSector h) :=
                      take (SectorSize P div 4) (words_of_Indirect ?dbl1)]"
  let ?ind = "\<lparr>ind_numSectors = int k,
                   ind_dataSectors = write_at (replicate (NumIndirect P) (- 1)) 0 xs\<rparr>"
  let ?d3 = "?d2[nat sec := take (SectorSize P div 4) (words_of_Indirect ?ind)]"
  let ?h2 = "h\<lparr>numBytes := min fileSize ((?ns + ?I) * ?S), numSectors := ?ns + int k\<rparr>"
  note it = double_iteration[OF ok inv lt c k_def free fs dr]
  have unfold: "AllocateDoubleIndirectBlock_loop P fileSize cur dbl h fm d =
      (if fileSize - numBytes ?h2 \<noteq> 0
       then AllocateDoubleIndirectBlock_loop P fileSize (cur + 1) ?dbl1 ?h2 fm2 ?d3
       else Some (Inr (?h2, fm2, ?d3)))"
    by (subst AllocateDoubleIndirectBlock_loop.simps)
       (simp only: cn it(1) it(2) it(3) Let_def sum.case prod.case option.case
          order_refl not_True_eq_False if_False)
  from big' have e: "numBytes ?h2 = (?ns + ?I) * ?S" by simp
  note inv2 = it(7)[OF big']
  have n': "n = nat (?I - (cur + 1))" using Suc.prems(1) by simp
  have c': "cur + 1 \<le> ?I" using c by simp
  have "(?I - (cur + 1)) * (?I + 1) = m - (?I + 1)"
    by (simp add: m_def algebra_simps)
  with m it(5) kk have free': "(?I - (cur + 1)) * (?I + 1) \<le> NumClear fm2"
    by linarith
  note r = Suc.IH[OF n' c' inv2 free']
  from unfold e big' have "AllocateDoubleIndirectBlock_loop P fileSize cur dbl h fm d =
      AllocateDoubleIndirectBlock_loop P fileSize (cur + 1) ?dbl1 ?h2 fm2 ?d3"
    by simp
  with r show ?case by simp
qed

text \<open>
  So \<open>Allocate\<close> from a zeroed header, for any size beyond the capacity, ends in that
  access once it has drawn a sector for every block of the capacity and for every
  index block.
\<close>

lemma Allocate_zeroed_overflow:
  assumes ok: "params_ok P"
    and big: "capacity P * int (SectorSize P) < fileSize"
    and free: "capacity P + 2 + int (NumIndirect P) \<le> NumClear fm"
    and disk: "length fm \<le> length d"
  shows "Allocate P (FileHeader_new P) fm d fileSize = Some (Inl OutOfBounds)"
proof -
  note p = params_ok_pos[OF ok]
  let ?S = "int (SectorSize P)" and ?D = "int (NumDirect P)" and ?I = "int (NumIndirect P)"
  let ?n = "divRoundUp fileSize ?S"
  have Spos: "0 < ?S" and Ipos: "0 < ?I" and Dpos: "0 < ?D" using p by simp_all
  note le = divRoundUp_le_iff[OF Spos]
  define q where "q = ?I * ?I"
  have cp: "capacity P = ?D + ?I + q" by (simp add: capacity_def q_def)
  have II: "0 \<le> q" by (simp add: q_def)
  have "(?D + ?I) * ?S \<le> capacity P * ?S"
    unfolding cp using Spos II by (intro mult_right_mono) simp_all
  with big have big2: "(?D + ?I) * ?S < fileSize" by simp
  have "?D * ?S \<le> (?D + ?I) * ?S" using Spos Ipos by (intro mult_right_mono) simp_all
  with big2 have big1: "?D * ?S < fileSize" by simp
  have adm: "\<not> NumClear fm < numSectors (FileHeader_new P)"
    using NumClear_nonneg[of fm] by (simp add: FileHeader_new_def)
  from big1 have "\<not> fileSize \<le> ?D * ?S" by simp
  then have "\<not> ?n \<le> ?D" by (simp add: le)
  then have n: "?D < ?n" by simp
  from big2 have f2: "\<not> fileSize \<le> (?D + ?I) * ?S" by simp
  then have "\<not> ?n \<le> ?D + ?I" by (simp add: le)
  then have n2: "?D + ?I < ?n" by simp
  define k where "k = nat (min ?D ?n)"
  have kk: "int k = ?D" using n by (simp add: k_def)
  from free II have fk: "int k \<le> NumClear fm" unfolding kk cp using Ipos by linarith
  from Allocate_direct_phase[OF ok k_def fk, of d]
  obtain h1 fm1 where d1: "AllocateDirectBlocks P fileSize (FileHeader_new P) fm = Inr (h1, fm1)"
    "numBytes h1 = min fileSize (?D * ?S)" "numSectors h1 = int k"
    "length (dataSectors h1) = NumDirect P"
    "singleIndirectSector h1 = - 1" "doubleIndirectSector h1 = - 1"
    "translates P h1 fm1 d" "marked fm \<subseteq> marked fm1" "length fm1 = length fm"
    "NumClear fm1 = NumClear fm - int k"
    by blast
  from big1 d1(2) have nb1: "numBytes h1 = ?D * ?S" by simp
  define k2 where "k2 = nat (min (?D + ?I) ?n - ?D)"
  have kk2: "int k2 = ?I" using n2 by (simp add: k2_def)
  from free II d1(10) kk kk2 have fr2: "1 + int k2 \<le> NumClear fm1" unfolding cp by linarith
  from disk d1(9) have disk1: "length fm1 \<le> length d" by simp
  from Allocate_single_phase[OF ok big1 nb1 d1(3)[unfolded kk] d1(4,5,7) k2_def fr2 disk1]
  obtain hc fmc dc h2 fm2 d2 where s:
    "CreateSingleIndirectBlock P h1 fm1 d = Inr (hc, fmc, dc)"
    "AllocateIndirectSpace P fileSize (singleIndirectSector hc) (?D * ?S) hc fmc dc =
       Some (Inr (fileSize - numBytes h2, h2, fm2, d2))"
    "numBytes h2 = min fileSize ((?D + ?I) * ?S)"
    "numSectors h2 = ?D + int k2"
    "dataSectors h2 = dataSectors h1" "doubleIndirectSector h2 = doubleIndirectSector h1"
    "0 \<le> singleIndirectSector h2" "singleIndirectSector h2 < int (length d2)"
    "singleIndirectSector h2 \<in> marked fm2"
    "translates P h2 fm2 d2" "marked fm1 \<subseteq> marked fm2" "length fm2 = length fm1"
    "length d2 = length d" "NumClear fm2 = NumClear fm1 - 1 - int k2"
    by blast
  have asrt: "\<not> \<not> ?D * ?S \<le> numBytes h1" using nb1 by simp
  have nf: "\<not> fileSize \<le> ?D * ?S" using big1 by simp
  have pre: "Allocate P (FileHeader_new P) fm d fileSize =
      (if fileSize - numBytes h2 = 0 then Some (Inr (True, h2, fm2, d2))
       else if \<not> fileSize - numBytes h2 > 0 then Some (Inl AssertFailed)
       else (case AllocateDoubleIndirectBlock P fileSize h2 fm2 d2 of
               None \<Rightarrow> None
             | Some (Inl e) \<Rightarrow> Some (Inl e)
             | Some (Inr (h4, freeMap4, d4)) \<Rightarrow> Some (Inr (True, h4, freeMap4, d4))))"
    unfolding Allocate_def
    by (simp only: adm d1(1) nf asrt s(1) s(2) if_False sum.case prod.case option.case)
  from big2 s(3) have nb2: "numBytes h2 = (?D + ?I) * ?S" by simp
  have nc2: "NumClear fm2 = NumClear fm - ?D - 1 - ?I" using s(14) d1(10) kk kk2 by simp
  have disk2: "length fm2 \<le> length d2" using s(12,13) disk1 by simp
  have h3: "numSectors h2 = ?D + ?I" using s(4) kk2 by simp
  have len3: "length (dataSectors h2) = NumDirect P" using s(5) d1(4) by simp
  have dbl3: "doubleIndirectSector h2 = - 1" using s(6) d1(6) by simp
  have pos: "0 < NumClear fm2" using nc2 free II Ipos unfolding cp by linarith
  obtain t fm3 where fs: "FindAndSet fm2 = (t, fm3)" by (cases "FindAndSet fm2")
  note en = AllocateDoubleIndirectBlock_entry[OF ok h3 nb2 len3 dbl3 s(7,8,9,10) disk2 pos fs]
  have "(?I - 0) * (?I + 1) = q + ?I" by (simp add: q_def algebra_simps)
  with en(3) nc2 free have fr3: "(?I - 0) * (?I + 1) \<le> NumClear fm3"
    unfolding cp by linarith
  from double_loop_overflow[OF ok big refl _ en(2) fr3]
  have "AllocateDoubleIndirectBlock P fileSize h2 fm2 d2 = Some (Inl OutOfBounds)"
    using en(1) by simp
  with pre nb2 big2 show ?thesis by simp
qed

lemma params_ok_ex: "params_ok params_ex"
  by (simp add: params_ok_def params_ex_def)

lemma sectors_needed_ex: "sectors_needed params_ex 352 = 14"
  by (simp add: sectors_needed_def params_ex_def divRoundUp_def)

text \<open>
  Claim C9: for a size within the capacity, a zeroed header, a map with as many free
  sectors as the file takes (so that every draw succeeds) and a disk that has every
  sector of the map, \<open>Allocate\<close> returns: the three loops end, the call reports
  success and the unmet remainder \<open>fileSize - numBytes\<close> is 0. The loop of the direct
  phase ends for every input, by the termination proof of \<open>AllocateDirectBlocks\<close>.
\<close>

theorem Allocate_terminates:
  assumes "params_ok P"
    and "fileSize \<le> capacity P * int (SectorSize P)"
    and "sectors_needed P fileSize \<le> NumClear fm"
    and "length fm \<le> length d"
  shows "\<exists>h' fm' d'. Allocate P (FileHeader_new P) fm d fileSize = Some (Inr (True, h', fm', d')) \<and>
     fileSize - numBytes h' = 0 \<and> NumClear fm' = NumClear fm - sectors_needed P fileSize"
proof -
  from Allocate_zeroed_correct[OF assms]
  obtain h' fm' d' where "Allocate P (FileHeader_new P) fm d fileSize = Some (Inr (True, h', fm', d'))"
    "numBytes h' = fileSize" "NumClear fm' = NumClear fm - sectors_needed P fileSize"
    by blast
  then show ?thesis by simp
qed

theorem Allocate_terminates_witness:
  "params_ok params_ex \<and> 352 \<le> capacity params_ex * int (SectorSize params_ex) \<and>
   sectors_needed params_ex 352 \<le> NumClear (replicate 16 False) \<and>
   length (replicate 16 False) \<le> length (blank_disk 16) \<and>
   (\<exists>h' fm' d'. Allocate params_ex (FileHeader_new params_ex) (replicate 16 False)
        (blank_disk 16) 352 = Some (Inr (True, h', fm', d')) \<and>
      352 - numBytes h' = 0 \<and>
      NumClear fm' = NumClear (replicate 16 False) - sectors_needed params_ex 352)"
proof -
  have a: "352 \<le> capacity params_ex * int (SectorSize params_ex)"
    by (simp add: capacity_def params_ex_def)
  have b: "sectors_needed params_ex 352 \<le> NumClear (replicate 16 False)"
    by (simp add: sectors_needed_ex NumClear_def)
  have c: "length (replicate 16 False) \<le> length (blank_disk 16)"
    by (simp add: blank_disk_def)
  from Allocate_terminates[OF params_ok_ex a b c] params_ok_ex a b c show ?thesis by blast
qed

text \<open>
  When every draw succeeds the allocation is right: for \<open>0 \<le> s \<le>\<close> capacity, a zeroed
  header, a map with as many free sectors as the file takes and a disk that has every
  sector of the map, \<open>Allocate\<close> succeeds, \<open>numBytes = s\<close>, and the blocks
  \<open>0 .. ceil(s / SectorSize) - 1\<close> translate to sectors that the map marks and that are
  pairwise distinct.
\<close>

lemma Allocate_translates:
  assumes "params_ok P"
    and "0 \<le> fileSize" and "fileSize \<le> capacity P * int (SectorSize P)"
    and "sectors_needed P fileSize \<le> NumClear fm"
    and "length fm \<le> length d"
  shows "\<exists>h' fm' d'. Allocate P (FileHeader_new P) fm d fileSize = Some (Inr (True, h', fm', d')) \<and>
     numBytes h' = fileSize \<and>
     (\<forall>i. 0 \<le> i \<and> i < divRoundUp fileSize (int (SectorSize P)) \<longrightarrow>
        (\<exists>s. GetPhysicSector P h' d' i = Inr s \<and> s \<in> marked fm')) \<and>
     (\<forall>i j. 0 \<le> i \<and> i < j \<and> j < divRoundUp fileSize (int (SectorSize P)) \<longrightarrow>
        GetPhysicSector P h' d' i \<noteq> GetPhysicSector P h' d' j)"
proof -
  from Allocate_zeroed_correct[OF assms(1,3,4,5)]
  obtain h' fm' d' where r:
    "Allocate P (FileHeader_new P) fm d fileSize = Some (Inr (True, h', fm', d'))"
    "numBytes h' = fileSize"
    "numSectors h' = max 0 (divRoundUp fileSize (int (SectorSize P)))"
    "translates P h' fm' d'"
    by blast
  from r(3) have le: "divRoundUp fileSize (int (SectorSize P)) \<le> numSectors h'" by simp
  have 1: "\<exists>s. GetPhysicSector P h' d' i = Inr s \<and> s \<in> marked fm'"
    if "0 \<le> i \<and> i < divRoundUp fileSize (int (SectorSize P))" for i
    using r(4) that le by (simp add: translates_def)
  have 2: "GetPhysicSector P h' d' i \<noteq> GetPhysicSector P h' d' j"
    if "0 \<le> i \<and> i < j \<and> j < divRoundUp fileSize (int (SectorSize P))" for i j
    using r(4) that le by (simp add: translates_def)
  from r(1,2) 1 2 show ?thesis by blast
qed

lemma Allocate_translates_ex:
  "params_ok params_ex \<and> (0::int) \<le> 352 \<and>
   352 \<le> capacity params_ex * int (SectorSize params_ex) \<and>
   sectors_needed params_ex 352 \<le> NumClear (replicate 16 False) \<and>
   length (replicate 16 False) \<le> length (blank_disk 16) \<and>
   (\<exists>h' fm' d'. Allocate params_ex (FileHeader_new params_ex) (replicate 16 False)
        (blank_disk 16) 352 = Some (Inr (True, h', fm', d')) \<and>
      numBytes h' = 352 \<and>
      (\<forall>i. 0 \<le> i \<and> i < divRoundUp 352 (int (SectorSize params_ex)) \<longrightarrow>
         (\<exists>s. GetPhysicSector params_ex h' d' i = Inr s \<and> s \<in> marked fm')) \<and>
      (\<forall>i j. 0 \<le> i \<and> i < j \<and> j < divRoundUp 352 (int (SectorSize params_ex)) \<longrightarrow>
         GetPhysicSector params_ex h' d' i \<noteq> GetPhysicSector params_ex h' d' j))"
proof -
  have z: "(0::int) \<le> 352" by simp
  have a: "352 \<le> capacity params_ex * int (SectorSize params_ex)"
    by (simp add: capacity_def params_ex_def)
  have b: "sectors_needed params_ex 352 \<le> NumClear (replicate 16 False)"
    by (simp add: sectors_needed_ex NumClear_def)
  have c: "length (replicate 16 False) \<le> length (blank_disk 16)"
    by (simp add: blank_disk_def)
  from Allocate_translates[OF params_ok_ex z a b c] params_ok_ex z a b c show ?thesis by blast
qed

text \<open>
  Claim C3: after a successful \<open>Allocate\<close> of \<open>s\<close> bytes on a zeroed header, with
  \<open>0 \<le> s \<le>\<close> capacity, the blocks \<open>0 .. ceil(s / SectorSize) - 1\<close> translate to
  sectors that are marked in the map and pairwise distinct, and \<open>numBytes = s\<close>. With
  enough free sectors this holds (lemma \<open>Allocate_translates\<close>). With a map that has
  no free sector the call should return false, as the comment above \<open>Allocate\<close> says
  (lines 78-79); the test of line 90 compares the free count with \<open>numSectors\<close>, still
  0, and no result of \<open>FindAndSet\<close> is checked, so the call for 64 bytes returns true
  and both blocks translate to \<open>-1\<close>: the same number twice, and no sector of the map.
\<close>

theorem Allocate_full_map:
  "Allocate params_ex (FileHeader_new params_ex) (replicate 4 True) (blank_disk 4) 64 =
     Some (Inr (True,
       \<lparr>numBytes = 64, numSectors = 2, dataSectors = [- 1, - 1, - 1],
        singleIndirectSector = - 1, doubleIndirectSector = - 1, headerSector = - 1\<rparr>,
       replicate 4 True, blank_disk 4)) \<and>
   GetPhysicSector params_ex
       \<lparr>numBytes = 64, numSectors = 2, dataSectors = [- 1, - 1, - 1],
        singleIndirectSector = - 1, doubleIndirectSector = - 1, headerSector = - 1\<rparr>
       (blank_disk 4) 0 = Inr (- 1) \<and>
   GetPhysicSector params_ex
       \<lparr>numBytes = 64, numSectors = 2, dataSectors = [- 1, - 1, - 1],
        singleIndirectSector = - 1, doubleIndirectSector = - 1, headerSector = - 1\<rparr>
       (blank_disk 4) 1 = Inr (- 1) \<and>
   - 1 \<notin> marked (replicate 4 True)"
proof -
  have "- 1 \<notin> marked (replicate 4 True)" by (simp add: marked_def)
  moreover have "Allocate params_ex (FileHeader_new params_ex) (replicate 4 True) (blank_disk 4) 64 =
     Some (Inr (True,
       \<lparr>numBytes = 64, numSectors = 2, dataSectors = [- 1, - 1, - 1],
        singleIndirectSector = - 1, doubleIndirectSector = - 1, headerSector = - 1\<rparr>,
       replicate 4 True, blank_disk 4))" by code_simp
  moreover have "GetPhysicSector params_ex
       \<lparr>numBytes = 64, numSectors = 2, dataSectors = [- 1, - 1, - 1],
        singleIndirectSector = - 1, doubleIndirectSector = - 1, headerSector = - 1\<rparr>
       (blank_disk 4) 0 = Inr (- 1)" by code_simp
  moreover have "GetPhysicSector params_ex
       \<lparr>numBytes = 64, numSectors = 2, dataSectors = [- 1, - 1, - 1],
        singleIndirectSector = - 1, doubleIndirectSector = - 1, headerSector = - 1\<rparr>
       (blank_disk 4) 1 = Inr (- 1)" by code_simp
  ultimately show ?thesis by blast
qed

subsection \<open>Deallocation of an allocated file\<close>

text \<open>
  A header that translates to marked, distinct sectors is deallocated without a fault;
  the header that \<open>Allocate\<close> makes from a zeroed one is of that kind when the size is
  within the capacity and the map had a free sector for every draw.
\<close>

lemma marked_clear:
  assumes "0 \<le> s" "s < int (length m)"
  shows "marked (m[nat s := False]) = marked m - {s}"
proof (intro set_eqI)
  fix x
  show "x \<in> marked (m[nat s := False]) \<longleftrightarrow> x \<in> marked m - {s}"
  proof (cases "x = s")
    case True
    with assms show ?thesis by (simp add: marked_def)
  next
    case False
    with assms have "0 \<le> x \<Longrightarrow> nat s \<noteq> nat x" by simp
    with False show ?thesis by (auto simp: marked_def)
  qed
qed

lemma marked_range: "s \<in> marked m \<Longrightarrow> 0 \<le> s \<and> s < int (length m) \<and> m ! nat s"
  by (simp add: marked_def)

lemma Deallocate_loop_succeeds:
  "(\<forall>i. i0 \<le> i \<and> i < numSectors h \<longrightarrow>
      (\<exists>s. GetPhysicSector P h d i = Inr s \<and> s \<in> marked fm)) \<Longrightarrow>
   (\<forall>i j. i0 \<le> i \<and> i < j \<and> j < numSectors h \<longrightarrow>
      GetPhysicSector P h d i \<noteq> GetPhysicSector P h d j) \<Longrightarrow>
   \<exists>fm'. Deallocate_loop P h d i0 fm = Inr fm'"
proof (induction P h d i0 fm rule: Deallocate_loop.induct)
  case (1 P h d i0 fm)
  note u = Deallocate_loop.simps[of P h d i0 fm]
  show ?case
  proof (cases "i0 < numSectors h")
    case False
    then show ?thesis by (simp add: u)
  next
    case True
    then have "i0 \<le> i0 \<and> i0 < numSectors h" by simp
    with "1.prems"(1) obtain s where s: "GetPhysicSector P h d i0 = Inr s" "s \<in> marked fm"
      by blast
    note r = marked_range[OF s(2)]
    from r have t: "Test fm s = Inr True" by (simp add: Test_def)
    from r have c: "Clear fm s = Inr (fm[nat s := False])" by (simp add: Clear_def)
    have nn: "\<not> \<not> True" by simp
    have a: "\<forall>i. i0 + 1 \<le> i \<and> i < numSectors h \<longrightarrow>
        (\<exists>s'. GetPhysicSector P h d i = Inr s' \<and> s' \<in> marked (fm[nat s := False]))"
    proof (intro allI impI)
      fix i assume i: "i0 + 1 \<le> i \<and> i < numSectors h"
      then have i': "i0 \<le> i \<and> i < numSectors h" "i0 \<le> i0 \<and> i0 < i \<and> i < numSectors h"
        by simp_all
      from "1.prems"(1) i'(1) obtain s' where s': "GetPhysicSector P h d i = Inr s'"
        "s' \<in> marked fm"
        by blast
      from i'(2) "1.prems"(2) have "GetPhysicSector P h d i0 \<noteq> GetPhysicSector P h d i"
        by blast
      with s(1) s'(1) have "s' \<noteq> s" by auto
      with s'(2) r have "s' \<in> marked (fm[nat s := False])" by (simp add: marked_clear)
      with s'(1) show "\<exists>s'. GetPhysicSector P h d i = Inr s' \<and> s' \<in> marked (fm[nat s := False])"
        by blast
    qed
    have b: "\<forall>i j. i0 + 1 \<le> i \<and> i < j \<and> j < numSectors h \<longrightarrow>
        GetPhysicSector P h d i \<noteq> GetPhysicSector P h d j"
    proof (intro allI impI)
      fix i j assume "i0 + 1 \<le> i \<and> i < j \<and> j < numSectors h"
      then have "i0 \<le> i \<and> i < j \<and> j < numSectors h" by simp
      with "1.prems"(2) show "GetPhysicSector P h d i \<noteq> GetPhysicSector P h d j" by blast
    qed
    from "1.IH"[OF True s(1) t nn c a b]
    obtain fm' where "Deallocate_loop P h d (i0 + 1) (fm[nat s := False]) = Inr fm'" by blast
    with True s(1) t c show ?thesis by (simp add: u)
  qed
qed

lemma release_if_marked_succeeds:
  "s = - 1 \<or> (0 \<le> s \<and> s < int (length fm)) \<Longrightarrow> \<exists>fm'. release_if_marked fm s = Inr fm'"
  by (auto simp: release_if_marked_def Test_def Clear_def)

lemma Deallocate_succeeds:
  assumes tr: "translates P h fm d"
    and s1: "singleIndirectSector h = - 1 \<or> singleIndirectSector h \<in> marked fm"
    and s2: "doubleIndirectSector h = - 1 \<or> doubleIndirectSector h \<in> marked fm"
  shows "\<exists>fm'. Deallocate P h fm d = Inr (h, fm', d)"
proof -
  from tr have "\<exists>fm1. Deallocate_loop P h d 0 fm = Inr fm1"
    by (intro Deallocate_loop_succeeds) (simp_all add: translates_def)
  then obtain fm1 where l: "Deallocate_loop P h d 0 fm = Inr fm1" by blast
  from Deallocate_loop_clears[OF l] have len1: "length fm1 = length fm" by simp
  from s1 len1 have "singleIndirectSector h = - 1 \<or>
      (0 \<le> singleIndirectSector h \<and> singleIndirectSector h < int (length fm1))"
    by (auto dest: marked_range)
  from release_if_marked_succeeds[OF this]
  obtain fm2 where r1: "release_if_marked fm1 (singleIndirectSector h) = Inr fm2" by blast
  from release_if_marked_clears[OF r1] len1 have len2: "length fm2 = length fm" by simp
  from s2 len2 have "doubleIndirectSector h = - 1 \<or>
      (0 \<le> doubleIndirectSector h \<and> doubleIndirectSector h < int (length fm2))"
    by (auto dest: marked_range)
  from release_if_marked_succeeds[OF this]
  obtain fm3 where r2: "release_if_marked fm2 (doubleIndirectSector h) = Inr fm3" by blast
  from l r1 r2 show ?thesis by (simp add: Deallocate_def)
qed

lemma Deallocate_after_Allocate:
  assumes "params_ok P"
    and "fileSize \<le> capacity P * int (SectorSize P)"
    and "sectors_needed P fileSize \<le> NumClear fm"
    and "length fm \<le> length d"
  shows "\<exists>h' fm' d' fm''.
     Allocate P (FileHeader_new P) fm d fileSize = Some (Inr (True, h', fm', d')) \<and>
     Deallocate P h' fm' d' = Inr (h', fm'', d') \<and>
     marked fm'' = marked fm' - released P h' d'"
proof -
  from Allocate_zeroed_correct[OF assms]
  obtain h' fm' d' where a:
    "Allocate P (FileHeader_new P) fm d fileSize = Some (Inr (True, h', fm', d'))"
    "translates P h' fm' d'"
    "singleIndirectSector h' = - 1 \<or> singleIndirectSector h' \<in> marked fm'"
    "doubleIndirectSector h' = - 1 \<or> doubleIndirectSector h' \<in> marked fm'"
    by blast
  from Deallocate_succeeds[OF a(2,3,4)]
  obtain fm'' where d: "Deallocate P h' fm' d' = Inr (h', fm'', d')" by blast
  from Deallocate_clears[OF d] have c: "length fm'' = length fm'"
    "\<And>n. n < length fm' \<Longrightarrow> fm'' ! n = (fm' ! n \<and> int n \<notin> released P h' d')"
    by simp_all
  have "marked fm'' = marked fm' - released P h' d'"
  proof (intro set_eqI)
    fix s
    show "s \<in> marked fm'' \<longleftrightarrow> s \<in> marked fm' - released P h' d'"
    proof (cases "0 \<le> s \<and> s < int (length fm')")
      case True
      then have "nat s < length fm'" "int (nat s) = s" by linarith+
      with c(2)[of "nat s"] c(1) True show ?thesis unfolding marked_def by simp
    next
      case False
      with c(1) show ?thesis by (auto simp: marked_def)
    qed
  qed
  with a(1) d show ?thesis by blast
qed

end
